theory Spec2Isabelle
  imports Complex_Main
begin

section \<open>Data model (core/types.ts)\<close>

text \<open>
  Axial hex coordinates. The source's \<open>number\<close> fields only ever hold integers here:
  every coordinate is built from integer literals by addition, or by \<open>Math.round\<close>.
\<close>

record HexCoord =
  q :: int
  r :: int

text \<open>
  A tile. The field \<open>id\<close> is named \<open>tid\<close> and \<open>value\<close> is named \<open>tvalue\<close>.
  The optional flags \<open>isNew?\<close> and \<open>isMerged?\<close> are \<open>None\<close> when the property is absent.
\<close>

record Tile =
  tid :: string
  tvalue :: int
  position :: HexCoord
  isNew :: "bool option"
  isMerged :: "bool option"

datatype Direction = NORTHEAST | EAST | SOUTHEAST | SOUTHWEST | WEST | NORTHWEST

text \<open>The numeric value of the enum, used to index \<open>DIRECTION_VECTORS\<close>.\<close>

fun dirIndex :: "Direction \<Rightarrow> nat" where
  "dirIndex NORTHEAST = 0"
| "dirIndex EAST = 1"
| "dirIndex SOUTHEAST = 2"
| "dirIndex SOUTHWEST = 3"
| "dirIndex WEST = 4"
| "dirIndex NORTHWEST = 5"

text \<open>An entry of \<open>GameState.history\<close>: the object \<open>{ grid, score }\<close>.\<close>

record Snapshot =
  snap_grid :: "Tile list"
  snap_score :: int

record GameState =
  grid :: "Tile list"
  score :: int
  bestScore :: int
  isGameOver :: bool
  isWon :: bool
  canUndo :: bool
  history :: "Snapshot list"
  undosRemaining :: int

section \<open>Constants (core/constants.ts)\<close>

definition GRID_SIZE :: int where
  "GRID_SIZE = 5"

definition TOTAL_TILES :: nat where
  "TOTAL_TILES = 37"

definition TILE_VALUES :: "int list" where
  "TILE_VALUES = [2, 6, 18, 54, 162, 486, 1458, 4374, 13122, 39366, 118098, 354294, 1062882]"

text \<open>\<open>Array.prototype.indexOf\<close>: the first index holding the value, or \<open>-1\<close>.\<close>

fun indexOfFrom :: "int \<Rightarrow> int list \<Rightarrow> int \<Rightarrow> int" where
  "indexOfFrom i [] v = - 1"
| "indexOfFrom i (x # xs) v = (if x = v then i else indexOfFrom (i + 1) xs v)"

definition indexOf :: "int list \<Rightarrow> int \<Rightarrow> int" where
  "indexOf xs v = indexOfFrom 0 xs v"

text \<open>\<open>getNextValue\<close>; the result \<open>undefined\<close> is \<open>None\<close>.\<close>

definition getNextValue :: "int \<Rightarrow> int option" where
  "getNextValue v =
     (let index = indexOf TILE_VALUES v in
      if index = - 1 \<or> index = int (length TILE_VALUES) - 1 then None
      else Some (TILE_VALUES ! nat (index + 1)))"

section \<open>Coordinate geometry (core/hexUtils.ts)\<close>

definition DIRECTION_VECTORS :: "HexCoord list" where
  "DIRECTION_VECTORS =
     [\<lparr>q = - 1, r = 1\<rparr>, \<lparr>q = - 1, r = 0\<rparr>, \<lparr>q = 0, r = - 1\<rparr>,
      \<lparr>q = 1, r = - 1\<rparr>, \<lparr>q = 1, r = 0\<rparr>, \<lparr>q = 0, r = 1\<rparr>]"

definition addCoords :: "HexCoord \<Rightarrow> HexCoord \<Rightarrow> HexCoord" where
  "addCoords a b = \<lparr>q = q a + q b, r = r a + r b\<rparr>"

definition getS :: "HexCoord \<Rightarrow> int" where
  "getS coord = - q coord - r coord"

definition coordsEqual :: "HexCoord \<Rightarrow> HexCoord \<Rightarrow> bool" where
  "coordsEqual a b \<longleftrightarrow> q a = q b \<and> r a = r b"

definition radius :: int where
  "radius = GRID_SIZE div 2"

definition getAllGridCoords :: "HexCoord list" where
  "getAllGridCoords =
     concat (map (\<lambda>qq.
        let r1 = max (- radius) (- qq - radius);
            r2 = min radius (- qq + radius)
        in map (\<lambda>rr. \<lparr>q = qq, r = rr\<rparr>) [r1..r2]) [- radius..radius])"

definition getNeighbors :: "HexCoord \<Rightarrow> HexCoord list" where
  "getNeighbors coord = map (\<lambda>dir. addCoords coord dir) DIRECTION_VECTORS"

definition isValidCoord :: "HexCoord \<Rightarrow> bool" where
  "isValidCoord coord \<longleftrightarrow>
     \<bar>q coord\<bar> \<le> radius \<and> \<bar>r coord\<bar> \<le> radius \<and> \<bar>getS coord\<bar> \<le> radius"

text \<open>\<open>DIRECTION_VECTORS[direction]\<close>; the index is always in range.\<close>

definition dirVector :: "Direction \<Rightarrow> HexCoord" where
  "dirVector direction = DIRECTION_VECTORS ! dirIndex direction"

text \<open>\<open>DIRECTION_VECTORS[(direction + 3) % 6]\<close>.\<close>

definition oppositeDirVector :: "Direction \<Rightarrow> HexCoord" where
  "oppositeDirVector direction = DIRECTION_VECTORS ! ((dirIndex direction + 3) mod 6)"

text \<open>
  The \<open>while (true)\<close> loop of \<open>getLine\<close>: the coordinates pushed after \<open>current\<close>.
  Each step moves one cell along the direction, and a valid coordinate is at most
  two cells from the centre, which bounds the walk.
\<close>

function getLineLoop :: "HexCoord \<Rightarrow> Direction \<Rightarrow> HexCoord list" where
  "getLineLoop current direction =
     (let next = addCoords current (dirVector direction) in
      if \<not> isValidCoord next then [] else next # getLineLoop next direction)"
  by pat_completeness auto
termination
proof (relation "measure (\<lambda>(c, d). nat (5 - (q (dirVector d) * q c + r (dirVector d) * r c)))")
  show "wf (measure (\<lambda>(c, d). nat (5 - (q (dirVector d) * q c + r (dirVector d) * r c))))"
    by simp
next
  fix current :: HexCoord and direction :: Direction and x :: HexCoord
  assume "x = addCoords current (dirVector direction)" and "\<not> \<not> isValidCoord x"
  then show "((x, direction), (current, direction))
      \<in> measure (\<lambda>(c, d). nat (5 - (q (dirVector d) * q c + r (dirVector d) * r c)))"
    by (cases direction)
       (auto simp: isValidCoord_def addCoords_def dirVector_def DIRECTION_VECTORS_def
          radius_def GRID_SIZE_def getS_def)
qed

definition getLine :: "HexCoord \<Rightarrow> Direction \<Rightarrow> HexCoord list" where
  "getLine start direction = start # getLineLoop start direction"

text \<open>The first \<open>while (true)\<close> loop of \<open>getAllLines\<close>: walk against the direction.\<close>

function walkBack :: "HexCoord \<Rightarrow> Direction \<Rightarrow> HexCoord" where
  "walkBack start direction =
     (let prev = addCoords start (oppositeDirVector direction) in
      if \<not> isValidCoord prev then start else walkBack prev direction)"
  by pat_completeness auto
termination
proof (relation "measure (\<lambda>(c, d).
          nat (5 - (q (oppositeDirVector d) * q c + r (oppositeDirVector d) * r c)))")
  show "wf (measure (\<lambda>(c, d).
          nat (5 - (q (oppositeDirVector d) * q c + r (oppositeDirVector d) * r c))))"
    by simp
next
  fix start :: HexCoord and direction :: Direction and x :: HexCoord
  assume "x = addCoords start (oppositeDirVector direction)" and "\<not> \<not> isValidCoord x"
  then show "((x, direction), (start, direction))
      \<in> measure (\<lambda>(c, d).
          nat (5 - (q (oppositeDirVector d) * q c + r (oppositeDirVector d) * r c)))"
    by (cases direction)
       (auto simp: isValidCoord_def addCoords_def oppositeDirVector_def DIRECTION_VECTORS_def
          radius_def GRID_SIZE_def getS_def)
qed

text \<open>
  The key \<open>`${coord.q},${coord.r}`\<close> of the \<open>Set<string>\<close>s. The decimal rendering of a
  pair of integers determines the pair, so the key is modelled as the pair itself.
\<close>

definition coordKey :: "HexCoord \<Rightarrow> int \<times> int" where
  "coordKey coord = (q coord, r coord)"

text \<open>The \<open>for (const coord of allCoords)\<close> loop of \<open>getAllLines\<close>, on \<open>(lines, used)\<close>.\<close>

fun getAllLinesLoop ::
  "Direction \<Rightarrow> HexCoord list \<Rightarrow> HexCoord list list \<times> (int \<times> int) set
    \<Rightarrow> HexCoord list list \<times> (int \<times> int) set" where
  "getAllLinesLoop direction [] acc = acc"
| "getAllLinesLoop direction (coord # rest) (lines, used) =
     (if coordKey coord \<in> used then getAllLinesLoop direction rest (lines, used)
      else
        let start = walkBack coord direction;
            line = getLine start direction
        in getAllLinesLoop direction rest (lines @ [line], used \<union> coordKey ` set line))"

definition getAllLines :: "Direction \<Rightarrow> HexCoord list list" where
  "getAllLines direction = fst (getAllLinesLoop direction getAllGridCoords ([], {}))"

section \<open>Merge resolver (core/mergeLogic.ts)\<close>

text \<open>\<open>grid.find(...)\<close>: the first tile at the coordinate, or \<open>undefined\<close>.\<close>

definition getTileAtCoord :: "Tile list \<Rightarrow> HexCoord \<Rightarrow> Tile option" where
  "getTileAtCoord g coord = find (\<lambda>tile. coordsEqual (position tile) coord) g"

text \<open>
  The nested \<open>for i\<close>, \<open>for j = i + 1\<close> loops of \<open>findTripletsAt\<close>: the first pair, in that
  order of enumeration, whose second tile sits on a neighbour of the first.
\<close>

fun firstAdjacentPair :: "Tile list \<Rightarrow> (Tile \<times> Tile) option" where
  "firstAdjacentPair [] = None"
| "firstAdjacentPair (tileA # rest) =
     (case find (\<lambda>tileB. \<exists>nCoord \<in> set (getNeighbors (position tileA)).
                    coordsEqual nCoord (position tileB)) rest of
        Some tileB \<Rightarrow> Some (tileA, tileB)
      | None \<Rightarrow> firstAdjacentPair rest)"

definition matchingNeighbors :: "Tile list \<Rightarrow> HexCoord \<Rightarrow> Tile \<Rightarrow> Tile list" where
  "matchingNeighbors g coord centerTile =
     filter (\<lambda>tile. tvalue tile = tvalue centerTile)
       (List.map_filter (\<lambda>pos. getTileAtCoord g pos) (getNeighbors coord))"

definition findTripletsAt :: "Tile list \<Rightarrow> HexCoord \<Rightarrow> Tile list" where
  "findTripletsAt g coord =
     (case getTileAtCoord g coord of
        None \<Rightarrow> []
      | Some centerTile \<Rightarrow>
          let matching = matchingNeighbors g coord centerTile in
          if length matching < 2 then []
          else (case firstAdjacentPair matching of
                  Some (tileA, tileB) \<Rightarrow> [centerTile, tileA, tileB]
                | None \<Rightarrow> []))"

text \<open>The \<open>for (const tile of grid)\<close> loop of \<open>findAllTriplets\<close>, on \<open>(triplets, checkedCoords)\<close>.\<close>

fun findAllTripletsLoop ::
  "Tile list \<Rightarrow> Tile list \<Rightarrow> Tile list list \<times> (int \<times> int) set
    \<Rightarrow> Tile list list \<times> (int \<times> int) set" where
  "findAllTripletsLoop g [] acc = acc"
| "findAllTripletsLoop g (tile # rest) (triplets, checkedCoords) =
     (let key = coordKey (position tile) in
      if key \<in> checkedCoords then findAllTripletsLoop g rest (triplets, checkedCoords)
      else
        let checked1 = insert key checkedCoords;
            triplet = findTripletsAt g (position tile)
        in if length triplet = 3
           then findAllTripletsLoop g rest
                  (triplets @ [triplet], checked1 \<union> (\<lambda>t. coordKey (position t)) ` set triplet)
           else findAllTripletsLoop g rest (triplets, checked1))"

definition findAllTriplets :: "Tile list \<Rightarrow> Tile list list" where
  "findAllTriplets g = fst (findAllTripletsLoop g g ([], {}))"

definition canMergeAnywhere :: "Tile list \<Rightarrow> bool" where
  "canMergeAnywhere g \<longleftrightarrow> length (findAllTriplets g) > 0"

text \<open>
  \<open>Math.round\<close>: the nearest integer, a tie going up. The argument is always a third of
  an integer here.
\<close>

definition Math_round :: "rat \<Rightarrow> int" where
  "Math_round x = \<lfloor>x + 1 / 2\<rfloor>"

text \<open>
  \<open>mergeTriplet\<close>. The id of the created tile comes from the clock and the random number
  generator; it is the parameter \<open>newId\<close>. The result \<open>{ grid, scoreIncrease }\<close> is a pair.
\<close>

definition centerPosition :: "Tile \<Rightarrow> Tile \<Rightarrow> Tile \<Rightarrow> HexCoord" where
  "centerPosition tile1 tile2 tile3 =
     \<lparr>q = Math_round (of_int (q (position tile1) + q (position tile2) + q (position tile3)) / 3),
      r = Math_round (of_int (r (position tile1) + r (position tile2) + r (position tile3)) / 3)\<rparr>"

definition filteredGrid :: "Tile list \<Rightarrow> Tile list \<Rightarrow> Tile list" where
  "filteredGrid g triplet = filter (\<lambda>tile. \<not> (\<exists>t \<in> set triplet. tid t = tid tile)) g"

fun mergeTriplet :: "string \<Rightarrow> Tile list \<Rightarrow> Tile list \<Rightarrow> Tile list \<times> int" where
  "mergeTriplet newId g [tile1, tile2, tile3] =
     (let oldValue = tvalue tile1 in
      case getNextValue oldValue of
        None \<Rightarrow> (g, 0)
      | Some nextValue \<Rightarrow>
          let scoreIncrease = oldValue * 3;
              newTile = \<lparr>tid = newId, tvalue = nextValue,
                         position = centerPosition tile1 tile2 tile3,
                         isNew = None, isMerged = Some True\<rparr>
          in (filteredGrid g [tile1, tile2, tile3] @ [newTile], scoreIncrease))"
| "mergeTriplet newId g triplet = (g, 0)"

text \<open>
  The \<open>for (const triplet of triplets)\<close> loop of \<open>resolveAllMerges\<close>, on
  \<open>(k, newGrid, stepScore)\<close>: \<open>k\<close> counts the calls of \<open>mergeTriplet\<close> made so far, and the
  call numbered \<open>k\<close> receives the id \<open>ids k\<close>.
\<close>

fun mergeStep ::
  "(nat \<Rightarrow> string) \<Rightarrow> Tile list list \<Rightarrow> nat \<times> Tile list \<times> int \<Rightarrow> nat \<times> Tile list \<times> int" where
  "mergeStep ids [] st = st"
| "mergeStep ids (triplet # rest) (k, newGrid, stepScore) =
     (let alreadyMerged = (\<exists>t \<in> set triplet. \<not> (\<exists>nt \<in> set newGrid. tid nt = tid t)) in
      if \<not> alreadyMerged
      then (case mergeTriplet (ids k) newGrid triplet of
              (mergedGrid, scoreIncrease) \<Rightarrow>
                mergeStep ids rest (Suc k, mergedGrid, stepScore + scoreIncrease))
      else mergeStep ids rest (k, newGrid, stepScore))"

text \<open>
  The \<open>while (mergesPerformed)\<close> loop of \<open>resolveAllMerges\<close>. Nothing bounds the number of
  passes, so the loop is a partial function: \<open>None\<close> means that it never exits.
\<close>

partial_function (option) resolveLoop ::
  "(nat \<Rightarrow> string) \<Rightarrow> nat \<Rightarrow> Tile list \<Rightarrow> int \<Rightarrow> (Tile list \<times> int) option" where
  "resolveLoop ids k currentGrid totalScore =
     (let triplets = findAllTriplets currentGrid in
      if length triplets = 0 then Some (currentGrid, totalScore)
      else (case mergeStep ids triplets (k, currentGrid, 0) of
              (k', newGrid, stepScore) \<Rightarrow>
                resolveLoop ids k' newGrid (totalScore + stepScore)))"

declare resolveLoop.simps [code]

definition resolveAllMerges :: "(nat \<Rightarrow> string) \<Rightarrow> Tile list \<Rightarrow> (Tile list \<times> int) option" where
  "resolveAllMerges ids g = resolveLoop ids 0 g 0"

definition resetMergeFlags :: "Tile list \<Rightarrow> Tile list" where
  "resetMergeFlags g = map (\<lambda>tile. tile\<lparr>isMerged := Some False\<rparr>) g"

section \<open>Move engine (core/game.ts)\<close>

definition initializeGrid :: "Tile list" where
  "initializeGrid = []"

text \<open>
  The random draws of one \<open>addRandomTile\<close> call. \<open>Math.floor(Math.random() * n)\<close> is some
  index below \<open>n\<close>, and every such index can come out: the draw is the natural number
  \<open>pick\<close>, reduced modulo \<open>n\<close>. \<open>six\<close> says that the second draw was not below \<open>0.9\<close>.
\<close>

record Spawn =
  pick :: nat
  six :: bool
  spawnId :: string

definition emptyCoords :: "Tile list \<Rightarrow> HexCoord list" where
  "emptyCoords g =
     filter (\<lambda>coord. \<not> (\<exists>tile \<in> set g. coordsEqual (position tile) coord)) getAllGridCoords"

definition addRandomTile :: "Spawn \<Rightarrow> Tile list \<Rightarrow> Tile list" where
  "addRandomTile sp g =
     (let empties = emptyCoords g in
      if length empties = 0 then g
      else
        let randomIndex = pick sp mod length empties;
            pos = empties ! randomIndex;
            v = (if six sp then 6 else 2);
            newTile = \<lparr>tid = spawnId sp, tvalue = v, position = pos,
                       isNew = Some True, isMerged = Some False\<rparr>
        in g @ [newTile])"

text \<open>\<open>initializeGameState\<close>; the call numbered \<open>i\<close> of \<open>addRandomTile\<close> draws \<open>sps i\<close>.\<close>

definition initializeGameState :: "(nat \<Rightarrow> Spawn) \<Rightarrow> GameState" where
  "initializeGameState sps =
     \<lparr>grid = fold (\<lambda>i g. addRandomTile (sps i) g) [0..<5] initializeGrid,
      score = 0, bestScore = 0, isGameOver = False, isWon = False, canUndo = False,
      history = [], undosRemaining = 3\<rparr>"

text \<open>\<open>x || false\<close> on an optional boolean.\<close>

definition orFalse :: "bool option \<Rightarrow> bool" where
  "orFalse b = (case b of Some v \<Rightarrow> v | None \<Rightarrow> False)"

definition resetGrid :: "Tile list \<Rightarrow> Tile list" where
  "resetGrid g = map (\<lambda>tile. tile\<lparr>isNew := Some False, isMerged := Some False\<rparr>) g"

definition tilesInLine :: "Tile list \<Rightarrow> HexCoord list \<Rightarrow> Tile list" where
  "tilesInLine movedGrid line = List.map_filter (\<lambda>coord. getTileAtCoord movedGrid coord) line"

text \<open>
  The inner \<open>for (let i = 0; i < tilesInLine.length; i++)\<close> loop, on \<open>(movedGrid, moved)\<close>.
  \<open>tilesInLine\<close> holds at most one tile per coordinate of the line, so \<open>line[i]\<close> exists
  for every tile: the loop runs over the tiles paired with the first coordinates.
\<close>

fun placeTiles :: "(HexCoord \<times> Tile) list \<Rightarrow> Tile list \<times> bool \<Rightarrow> Tile list \<times> bool" where
  "placeTiles [] acc = acc"
| "placeTiles ((targetPosition, tile) # rest) (movedGrid, moved) =
     placeTiles rest
       (movedGrid @ [\<lparr>tid = tid tile, tvalue = tvalue tile, position = targetPosition,
                      isNew = Some (orFalse (isNew tile)),
                      isMerged = Some (orFalse (isMerged tile))\<rparr>],
        (if \<not> coordsEqual (position tile) targetPosition then True else moved))"

text \<open>The body of the \<open>for (const line of lines)\<close> loop.\<close>

definition slideLine :: "HexCoord list \<Rightarrow> Tile list \<times> bool \<Rightarrow> Tile list \<times> bool" where
  "slideLine line st =
     (case st of (movedGrid, moved) \<Rightarrow>
        let inLine = tilesInLine movedGrid line in
        if length inLine = 0 then (movedGrid, moved)
        else
          let kept = filter (\<lambda>tile. \<not> (\<exists>lineTile \<in> set inLine. tid lineTile = tid tile))
                       movedGrid
          in placeTiles (zip line inLine) (kept, moved))"

definition slideAll :: "Direction \<Rightarrow> Tile list \<Rightarrow> Tile list \<times> bool" where
  "slideAll direction g = fold slideLine (getAllLines direction) (g, False)"

text \<open>The random draws of one \<open>moveInDirection\<close> call: the ids of the merged tiles and the spawn.\<close>

record Draws =
  mergeIds :: "nat \<Rightarrow> string"
  spawn :: Spawn

definition highestTile :: "Tile list \<Rightarrow> int" where
  "highestTile g = fold (\<lambda>tile highest. max highest (tvalue tile)) g 0"

definition moveInDirection :: "Draws \<Rightarrow> GameState \<Rightarrow> Direction \<Rightarrow> GameState option" where
  "moveInDirection dr gameState direction =
     (let prevState = \<lparr>snap_grid = grid gameState, snap_score = score gameState\<rparr> in
      case slideAll direction (resetGrid (grid gameState)) of
        (movedGrid, moved) \<Rightarrow>
          if \<not> moved then Some gameState
          else (case resolveAllMerges (mergeIds dr) movedGrid of
                  None \<Rightarrow> None
                | Some (mergedGrid, scoreIncrease) \<Rightarrow>
                    let newGrid = addRandomTile (spawn dr) mergedGrid;
                        emptyCells = length (emptyCoords newGrid);
                        won = (highestTile newGrid \<ge> 1062882);
                        canStillMerge = canMergeAnywhere newGrid;
                        over = (emptyCells = 0 \<and> \<not> canStillMerge)
                    in Some (gameState\<lparr>grid := newGrid,
                         score := score gameState + scoreIncrease,
                         bestScore := max (bestScore gameState) (score gameState + scoreIncrease),
                         isWon := won, isGameOver := over, canUndo := True,
                         history := history gameState @ [prevState]\<rparr>)))"

definition undoMove :: "GameState \<Rightarrow> GameState" where
  "undoMove gameState =
     (if \<not> canUndo gameState \<or> length (history gameState) = 0 \<or> undosRemaining gameState \<le> 0
      then gameState
      else
        let lastState = last (history gameState);
            newHistory = butlast (history gameState)
        in gameState\<lparr>grid := snap_grid lastState, score := snap_score lastState,
             isGameOver := False, isWon := False, canUndo := (length newHistory > 0),
             history := newHistory, undosRemaining := undosRemaining gameState - 1\<rparr>)"

definition resetGame :: "(nat \<Rightarrow> Spawn) \<Rightarrow> GameState \<Rightarrow> GameState" where
  "resetGame sps gameState = (initializeGameState sps)\<lparr>bestScore := bestScore gameState\<rparr>"


section \<open>Example boards and states\<close>

text \<open>A tile with both display flags cleared.\<close>

definition exTile :: "string \<Rightarrow> int \<Rightarrow> int \<Rightarrow> int \<Rightarrow> Tile" where
  "exTile i v a b =
     \<lparr>tid = i, tvalue = v, position = \<lparr>q = a, r = b\<rparr>, isNew = Some False, isMerged = Some False\<rparr>"

text \<open>A fresh state around a given board, with the initial counters.\<close>

definition exState :: "Tile list \<Rightarrow> GameState" where
  "exState g = \<lparr>grid = g, score = 0, bestScore = 0, isGameOver = False, isWon = False,
      canUndo = False, history = [], undosRemaining = 3\<rparr>"

definition exDraws :: Draws where
  "exDraws = \<lparr>mergeIds = (\<lambda>k. replicate (Suc k) CHR ''m''),
      spawn = \<lparr>pick = 0, six = False, spawnId = ''s''\<rparr>\<rparr>"

text \<open>Three mutually adjacent tiles of the top progression value.\<close>

definition terminalBoard :: "Tile list" where
  "terminalBoard = [exTile ''a'' 1062882 0 0, exTile ''b'' 1062882 1 0, exTile ''c'' 1062882 0 1]"

text \<open>The same three tiles after a slide to the west (flags cleared).\<close>

definition terminalBoardWest :: "Tile list" where
  "terminalBoardWest =
     [exTile ''a'' 1062882 (- 2) 0, exTile ''b'' 1062882 (- 1) 0, exTile ''c'' 1062882 (- 2) 1]"

text \<open>A single tile in the centre, and the state after it slid west and a tile spawned.\<close>

definition oneTileState :: GameState where
  "oneTileState = exState [exTile ''a'' 2 0 0]"

definition oneTileMoved :: GameState where
  "oneTileMoved =
     \<lparr>grid = [exTile ''a'' 2 (- 2) 0,
              \<lparr>tid = ''s'', tvalue = 2, position = \<lparr>q = - 2, r = 1\<rparr>,
               isNew = Some True, isMerged = Some False\<rparr>],
      score = 0, bestScore = 0, isGameOver = False, isWon = False, canUndo = True,
      history = [\<lparr>snap_grid = [exTile ''a'' 2 0 0], snap_score = 0\<rparr>],
      undosRemaining = 3\<rparr>"

text \<open>
  Three mutually adjacent tiles of value 2 that already sit at the start of their lines
  for a move to the east.
\<close>

definition packedState :: GameState where
  "packedState = exState [exTile ''a'' 2 2 0, exTile ''b'' 2 1 0, exTile ''c'' 2 1 1]"

text \<open>
  Four tiles of value 2 on a rhombus: \<open>a\<close>, \<open>b\<close>, \<open>c\<close> are mutually adjacent, and so are
  \<open>d\<close>, \<open>c\<close>, \<open>b\<close>.
\<close>

definition rhombusBoard :: "Tile list" where
  "rhombusBoard = [exTile ''a'' 2 0 0, exTile ''b'' 2 1 0, exTile ''c'' 2 0 1, exTile ''d'' 2 1 1]"

text \<open>Spawn draws for an initial state, and the state after a move to the west from it.\<close>

definition exSpawns :: "nat \<Rightarrow> Spawn" where
  "exSpawns i = \<lparr>pick = 3 * i, six = (i = 2), spawnId = replicate (Suc i) CHR ''t''\<rparr>"

definition initMoved :: GameState where
  "initMoved =
     \<lparr>grid =
        [exTile ''t'' 2 (- 2) 0, exTile ''tt'' 2 (- 1) 0, exTile ''ttt'' 6 (- 1) (- 1),
         exTile ''tttt'' 2 0 (- 2), exTile ''ttttt'' 2 1 (- 2),
         \<lparr>tid = ''s'', tvalue = 2, position = \<lparr>q = - 2, r = 1\<rparr>,
          isNew = Some True, isMerged = Some False\<rparr>],
      score = 0, bestScore = 0, isGameOver = False, isWon = False, canUndo = True,
      history = [\<lparr>snap_grid = grid (initializeGameState exSpawns), snap_score = 0\<rparr>],
      undosRemaining = 3\<rparr>"

section \<open>Predicates on boards and triplet lists\<close>

text \<open>
  Every triplet of the list has three tiles on three different coordinates, and its first
  tile (the centre of the detection) is on no coordinate of an earlier triplet.
\<close>

definition centresFresh :: "Tile list list \<Rightarrow> bool" where
  "centresFresh ts \<longleftrightarrow>
     (\<forall>j < length ts. length (ts ! j) = 3 \<and> distinct (map position (ts ! j))
        \<and> (\<forall>i < j. position (hd (ts ! j)) \<notin> position ` set (ts ! i)))"

text \<open>The board invariant: the tiles are on different coordinates, all of them valid.\<close>

definition validBoard :: "Tile list \<Rightarrow> bool" where
  "validBoard g \<longleftrightarrow> distinct (map position g) \<and> (\<forall>t \<in> set g. isValidCoord (position t))"

text \<open>Each entry of the list is the one before it plus the vector.\<close>

fun consecutive :: "HexCoord \<Rightarrow> HexCoord list \<Rightarrow> bool" where
  "consecutive v [] \<longleftrightarrow> True"
| "consecutive v [a] \<longleftrightarrow> True"
| "consecutive v (a # b # rest) \<longleftrightarrow> b = addCoords a v \<and> consecutive v (b # rest)"

text \<open>
  A maximal straight run along a direction: consecutive entries differ by the direction's
  vector, one step back from the first entry is off the grid, and so is one step forward
  from the last.
\<close>

definition maximalRun :: "Direction \<Rightarrow> HexCoord list \<Rightarrow> bool" where
  "maximalRun d line \<longleftrightarrow>
     line \<noteq> [] \<and> consecutive (dirVector d) line
     \<and> \<not> isValidCoord (addCoords (hd line) (oppositeDirVector d))
     \<and> \<not> isValidCoord (addCoords (last line) (dirVector d))"

text \<open>
  The ids drawn for the merged tiles of one move are new: no id is drawn twice, and none
  is the id of a tile already on the board. (The data model takes ids to be unique.)
\<close>

definition freshIds :: "(nat \<Rightarrow> string) \<Rightarrow> Tile list \<Rightarrow> bool" where
  "freshIds ids g \<longleftrightarrow> inj ids \<and> (\<forall>k. ids k \<notin> tid ` set g)"

text \<open>
  The states reachable from \<open>initializeGameState\<close> by \<open>moveInDirection\<close>, \<open>undoMove\<close> and
  \<open>resetGame\<close>, when the ids drawn for the merged tiles of each move satisfy \<open>idsOk\<close> on
  the board the move starts from. A move counts when it returns; every spawn draw is
  allowed. The last rule is the caller of \<open>resetGame\<close> (the store), which overwrites
  \<open>undosRemaining\<close> with the undo budget of the game mode.
\<close>

inductive reachable :: "((nat \<Rightarrow> string) \<Rightarrow> Tile list \<Rightarrow> bool) \<Rightarrow> GameState \<Rightarrow> bool"
  for idsOk :: "(nat \<Rightarrow> string) \<Rightarrow> Tile list \<Rightarrow> bool" where
  reach_init: "reachable idsOk (initializeGameState sps)"
| reach_move: "reachable idsOk S \<Longrightarrow> idsOk (mergeIds dr) (grid S)
     \<Longrightarrow> moveInDirection dr S d = Some S' \<Longrightarrow> reachable idsOk S'"
| reach_undo: "reachable idsOk S \<Longrightarrow> reachable idsOk (undoMove S)"
| reach_reset: "reachable idsOk S \<Longrightarrow> reachable idsOk (resetGame sps S)"
| reach_budget: "reachable idsOk S \<Longrightarrow> reachable idsOk (S\<lparr>undosRemaining := n\<rparr>)"

text \<open>The board invariant on the live board and on every board kept for undo.\<close>

definition stateInv :: "GameState \<Rightarrow> bool" where
  "stateInv S \<longleftrightarrow> validBoard (grid S) \<and> (\<forall>h \<in> set (history S). validBoard (snap_grid h))"

text \<open>
  The invariant of one pass of \<open>resolveAllMerges\<close>, started on the board \<open>g0\<close> with the
  call counter at \<open>k\<close>: the working board is valid, each of its tiles is a tile of \<open>g0\<close> or
  carries an id drawn in this pass, and the tiles of \<open>g0\<close> that share an id are on the
  working board together or not at all.
\<close>

definition passInv :: "(nat \<Rightarrow> string) \<Rightarrow> nat \<Rightarrow> Tile list \<Rightarrow> nat \<Rightarrow> Tile list \<Rightarrow> bool" where
  "passInv ids k g0 k' newGrid \<longleftrightarrow>
     k \<le> k' \<and> validBoard newGrid
     \<and> (\<forall>t \<in> set newGrid. t \<in> set g0 \<or> (\<exists>j. k \<le> j \<and> j < k' \<and> tid t = ids j))
     \<and> (\<forall>t \<in> set g0. \<forall>u \<in> set g0. tid t = tid u \<longrightarrow> (t \<in> set newGrid \<longleftrightarrow> u \<in> set newGrid))"

text \<open>
  The tile that the specification expects from a merge of three tiles into the value \<open>v\<close>,
  written from its words (one tile, at the componentwise rounded average of the three
  positions, \<open>isMerged\<close> set), to be compared with what \<open>mergeTriplet\<close> builds.
\<close>

definition expectedMergedTile :: "string \<Rightarrow> int \<Rightarrow> Tile \<Rightarrow> Tile \<Rightarrow> Tile \<Rightarrow> Tile" where
  "expectedMergedTile nid v t1 t2 t3 =
     \<lparr>tid = nid, tvalue = v,
      position =
        \<lparr>q = Math_round (of_int (q (position t1) + q (position t2) + q (position t3)) / 3),
         r = Math_round (of_int (r (position t1) + r (position t2) + r (position t3)) / 3)\<rparr>,
      isNew = None, isMerged = Some True\<rparr>"

text \<open>
  The tiles found on the line, in the order of the line, sit on its first coordinates:
  a slide along the line has nothing to move.
\<close>

definition linePacked :: "Tile list \<Rightarrow> HexCoord list \<Rightarrow> bool" where
  "linePacked g line \<longleftrightarrow>
     map position (tilesInLine g line) = take (length (tilesInLine g line)) line"

section \<open>The merge of a terminal triplet\<close>

lemma getNextValue_terminal: "getNextValue 1062882 = None"
  by (simp add: getNextValue_def indexOf_def TILE_VALUES_def)

text \<open>
  C9. For every board and every triplet whose tiles all carry the terminal value 1062882,
  \<open>mergeTriplet\<close> returns the board unchanged and a score increase of zero, whatever the
  positions of the tiles.
\<close>

theorem mergeTriplet_terminal_noop:
  "\<forall>t \<in> set triplet. tvalue t = 1062882 \<Longrightarrow> mergeTriplet newId g triplet = (g, 0)"
  by (cases "(newId, g, triplet)" rule: mergeTriplet.cases)
     (simp_all add: getNextValue_terminal)

theorem mergeTriplet_terminal_noop_witness:
  "map tvalue terminalBoard = [1062882, 1062882, 1062882]
   \<and> mergeTriplet ''n'' (exTile ''d'' 2 1 1 # terminalBoard) terminalBoard
       = (exTile ''d'' 2 1 1 # terminalBoard, 0)"
proof -
  have h: "\<forall>t \<in> set terminalBoard. tvalue t = 1062882"
    by (simp add: terminalBoard_def exTile_def)
  have "map tvalue terminalBoard = [1062882, 1062882, 1062882]"
    by (simp add: terminalBoard_def exTile_def)
  with mergeTriplet_terminal_noop [OF h] show ?thesis by simp
qed

section \<open>The pass loop on a terminal triplet\<close>

text \<open>
  A board on which the scan finds one triplet, the board itself, and on which the merge
  of that triplet changes nothing: the pass loop never leaves it.
\<close>

lemma resolveLoop_Some_not_stuck:
  assumes found: "findAllTriplets g0 = [g0]"
    and same: "\<And>ids k. mergeStep ids [g0] (k, g0, 0) = (Suc k, g0, 0)"
    and ret: "resolveLoop ids k g s = Some y"
  shows "g \<noteq> g0"
proof (rule resolveLoop.raw_induct [OF _ ret, where P = "\<lambda>ids k g s y. g \<noteq> g0"])
  fix rl :: "(nat \<Rightarrow> string) \<Rightarrow> nat \<Rightarrow> Tile list \<Rightarrow> int \<Rightarrow> (Tile list \<times> int) option"
  fix ids k currentGrid totalScore y
  assume IH: "\<And>ids k g s y. rl ids k g s = Some y \<Longrightarrow> g \<noteq> g0"
  assume step: "(let triplets = findAllTriplets currentGrid in
      if length triplets = 0 then Some (currentGrid, totalScore)
      else case mergeStep ids triplets (k, currentGrid, 0) of
             (k', newGrid, stepScore) \<Rightarrow> rl ids k' newGrid (totalScore + stepScore)) = Some y"
  show "currentGrid \<noteq> g0"
  proof
    assume eq: "currentGrid = g0"
    from step have "rl ids (Suc k) g0 totalScore = Some y"
      by (simp add: eq found same del: mergeStep.simps)
    from IH [OF this] show False by simp
  qed
qed

lemma resolveLoop_stuck:
  assumes "findAllTriplets g0 = [g0]"
    and "\<And>ids k. mergeStep ids [g0] (k, g0, 0) = (Suc k, g0, 0)"
  shows "resolveLoop ids k g0 s = None"
  using resolveLoop_Some_not_stuck [OF assms, of ids k g0 s]
  by (cases "resolveLoop ids k g0 s") auto

lemma resolveLoop_terminalBoard: "resolveLoop ids k terminalBoard s = None"
proof (rule resolveLoop_stuck)
  show "findAllTriplets terminalBoard = [terminalBoard]"
    by code_simp
  show "mergeStep ids [terminalBoard] (k, terminalBoard, 0) = (Suc k, terminalBoard, 0)"
    for ids k
    by (simp add: terminalBoard_def exTile_def getNextValue_terminal)
qed

lemma resolveLoop_terminalBoardWest: "resolveLoop ids k terminalBoardWest s = None"
proof (rule resolveLoop_stuck)
  show "findAllTriplets terminalBoardWest = [terminalBoardWest]"
    by code_simp
  show "mergeStep ids [terminalBoardWest] (k, terminalBoardWest, 0)
      = (Suc k, terminalBoardWest, 0)" for ids k
    by (simp add: terminalBoardWest_def exTile_def getNextValue_terminal)
qed

lemma slideAll_terminalBoard:
  "slideAll WEST (resetGrid terminalBoard) = (terminalBoardWest, True)"
  by code_simp

text \<open>
  C1. The claim is that \<open>resolveAllMerges\<close> returns on every board, so that every move
  returns. On the board of three mutually adjacent tiles of value 1062882 it does not:
  every pass finds the triplet, \<open>mergeTriplet\<close> leaves the board as it is, and the next
  pass starts from the same board. The loop never exits, for any ids, and a move to the
  west from that board, which slides the triplet to the edge, never returns either.
\<close>

theorem resolveAllMerges_terminalBoard_diverges:
  "resolveAllMerges ids terminalBoard = None
   \<and> moveInDirection dr (exState terminalBoard) WEST = None"
  by (simp add: resolveAllMerges_def resolveLoop_terminalBoard moveInDirection_def
        exState_def slideAll_terminalBoard resolveLoop_terminalBoardWest)

section \<open>The flags and the history after a move\<close>



text \<open>The state a move returns when the slide moved a tile.\<close>

lemma moveInDirection_moved:
  assumes "snd (slideAll d (resetGrid (grid S)))"
    and "moveInDirection dr S d = Some S'"
  obtains mergedGrid scoreIncrease where
    "resolveAllMerges (mergeIds dr) (fst (slideAll d (resetGrid (grid S))))
       = Some (mergedGrid, scoreIncrease)"
    "S' = S\<lparr>grid := addRandomTile (spawn dr) mergedGrid,
            score := score S + scoreIncrease,
            bestScore := max (bestScore S) (score S + scoreIncrease),
            isWon := (highestTile (addRandomTile (spawn dr) mergedGrid) \<ge> 1062882),
            isGameOver := (length (emptyCoords (addRandomTile (spawn dr) mergedGrid)) = 0
               \<and> \<not> canMergeAnywhere (addRandomTile (spawn dr) mergedGrid)),
            canUndo := True,
            history := history S @ [\<lparr>snap_grid = grid S, snap_score = score S\<rparr>]\<rparr>"
  using assms
  by (auto simp: moveInDirection_def Let_def split: option.splits prod.splits)

lemma oneTile_moves: "snd (slideAll WEST (resetGrid (grid oneTileState)))"
  by code_simp

lemma oneTile_move: "moveInDirection exDraws oneTileState WEST = Some oneTileMoved"
  by code_simp



text \<open>
  C4. Undo round trip: from a state with an undo left, when a move whose slide moved a
  tile returns \<open>S1\<close>, undoing \<open>S1\<close> gives back the board and the score of the state
  before the move, one undo fewer, and both \<open>isGameOver\<close> and \<open>isWon\<close> cleared.
\<close>

theorem undo_roundtrip:
  assumes "0 < undosRemaining S0"
    and "snd (slideAll d (resetGrid (grid S0)))"
    and "moveInDirection dr S0 d = Some S1"
  shows "grid (undoMove S1) = grid S0 \<and> score (undoMove S1) = score S0
    \<and> undosRemaining (undoMove S1) = undosRemaining S0 - 1
    \<and> \<not> isGameOver (undoMove S1) \<and> \<not> isWon (undoMove S1)"
proof -
  from assms(2,3) obtain mergedGrid scoreIncrease where
    S1: "S1 = S0\<lparr>grid := addRandomTile (spawn dr) mergedGrid,
            score := score S0 + scoreIncrease,
            bestScore := max (bestScore S0) (score S0 + scoreIncrease),
            isWon := (highestTile (addRandomTile (spawn dr) mergedGrid) \<ge> 1062882),
            isGameOver := (length (emptyCoords (addRandomTile (spawn dr) mergedGrid)) = 0
               \<and> \<not> canMergeAnywhere (addRandomTile (spawn dr) mergedGrid)),
            canUndo := True,
            history := history S0 @ [\<lparr>snap_grid = grid S0, snap_score = score S0\<rparr>]\<rparr>"
    by (rule moveInDirection_moved)
  from assms(1) show ?thesis
    by (simp add: S1 undoMove_def)
qed

theorem undo_roundtrip_witness:
  "0 < undosRemaining oneTileState
   \<and> snd (slideAll WEST (resetGrid (grid oneTileState)))
   \<and> moveInDirection exDraws oneTileState WEST = Some oneTileMoved
   \<and> grid (undoMove oneTileMoved) = grid oneTileState
   \<and> score (undoMove oneTileMoved) = score oneTileState
   \<and> undosRemaining (undoMove oneTileMoved) = undosRemaining oneTileState - 1
   \<and> \<not> isGameOver (undoMove oneTileMoved) \<and> \<not> isWon (undoMove oneTileMoved)"
proof -
  have h: "0 < undosRemaining oneTileState"
    by (simp add: oneTileState_def exState_def)
  from undo_roundtrip [OF h oneTile_moves oneTile_move] h oneTile_moves oneTile_move
  show ?thesis by simp
qed


section \<open>Triplet detection\<close>

lemma coordsEqual_iff: "coordsEqual a b \<longleftrightarrow> a = b"
  by (cases a, cases b) (simp add: coordsEqual_def)

lemma getTileAtCoord_Some:
  "getTileAtCoord g c = Some t \<Longrightarrow> t \<in> set g \<and> position t = c"
  by (auto simp: getTileAtCoord_def find_Some_iff coordsEqual_iff)

lemma getTileAtCoord_None:
  "getTileAtCoord g c = None \<longleftrightarrow> c \<notin> position ` set g"
  by (auto simp: getTileAtCoord_def find_None_iff coordsEqual_iff)

lemma not_own_neighbor: "c \<notin> set (getNeighbors c)"
  by (cases c) (simp add: getNeighbors_def DIRECTION_VECTORS_def addCoords_def)

lemma set_map_filter_iff:
  "y \<in> set (List.map_filter f xs) \<longleftrightarrow> (\<exists>x \<in> set xs. f x = Some y)"
  by (induction xs) (auto split: option.splits)

lemma in_matchingNeighbors:
  "t \<in> set (matchingNeighbors g c ct)
     \<Longrightarrow> t \<in> set g \<and> position t \<in> set (getNeighbors c) \<and> tvalue t = tvalue ct"
  by (auto simp: matchingNeighbors_def set_map_filter_iff dest: getTileAtCoord_Some)

lemma firstAdjacentPair_Some:
  "firstAdjacentPair xs = Some (a, b)
     \<Longrightarrow> a \<in> set xs \<and> b \<in> set xs \<and> position b \<in> set (getNeighbors (position a))"
proof (induction xs)
  case Nil
  then show ?case by simp
next
  case (Cons x xs)
  show ?case
  proof (cases "find (\<lambda>tileB. \<exists>nCoord \<in> set (getNeighbors (position x)).
                    coordsEqual nCoord (position tileB)) xs")
    case None
    with Cons show ?thesis by simp
  next
    case (Some y)
    with Cons.prems have "a = x" "b = y" by simp_all
    with Some show ?thesis
      by (auto simp: find_Some_iff coordsEqual_iff)
  qed
qed

text \<open>The shape of a triplet found at a coordinate.\<close>

lemma findTripletsAt_shape:
  assumes "findTripletsAt g c = T" and "T \<noteq> []"
  obtains ct a b where "T = [ct, a, b]" "position ct = c"
    "ct \<in> set g" "a \<in> set g" "b \<in> set g"
    "position a \<in> set (getNeighbors c)" "position b \<in> set (getNeighbors c)"
    "position b \<in> set (getNeighbors (position a))"
    "tvalue a = tvalue ct" "tvalue b = tvalue ct"
proof -
  from assms obtain ct where ct: "getTileAtCoord g c = Some ct"
    by (auto simp: findTripletsAt_def split: option.splits)
  with assms obtain a b where ab: "firstAdjacentPair (matchingNeighbors g c ct) = Some (a, b)"
    and T: "T = [ct, a, b]"
    by (auto simp: findTripletsAt_def Let_def split: option.splits if_splits)
  from firstAdjacentPair_Some [OF ab] in_matchingNeighbors [of _ g c ct] getTileAtCoord_Some [OF ct] T
  show ?thesis by (intro that [of ct a b]) auto
qed

lemma findTripletsAt_distinct:
  assumes "findTripletsAt g c = T"
  shows "distinct (map position T)"
proof (cases "T = []")
  case True
  then show ?thesis by simp
next
  case False
  with assms obtain ct a b where "T = [ct, a, b]" "position ct = c"
    "position a \<in> set (getNeighbors c)" "position b \<in> set (getNeighbors c)"
    "position b \<in> set (getNeighbors (position a))"
    by (rule findTripletsAt_shape)
  then show ?thesis
    using not_own_neighbor [of c] not_own_neighbor [of "position a"] by auto
qed

lemma findAllTripletsLoop_inv:
  assumes "\<forall>T \<in> set ts. (\<lambda>t. coordKey (position t)) ` set T \<subseteq> checked"
    and "centresFresh ts"
  shows "centresFresh (fst (findAllTripletsLoop g rest (ts, checked)))"
  using assms
proof (induction rest arbitrary: ts checked)
  case Nil
  then show ?case by simp
next
  case (Cons tile rest)
  let ?key = "coordKey (position tile)"
  let ?T = "findTripletsAt g (position tile)"
  show ?case
  proof (cases "?key \<in> checked")
    case True
    with Cons show ?thesis by simp
  next
    case notin: False
    show ?thesis
    proof (cases "length ?T = 3")
      case False
      have "centresFresh (fst (findAllTripletsLoop g rest (ts, insert ?key checked)))"
        using Cons.prems by (intro Cons.IH) auto
      with notin False show ?thesis by (simp add: Let_def)
    next
      case True
      then have "?T \<noteq> []" by auto
      then obtain ct a b where T: "?T = [ct, a, b]" and ct: "position ct = position tile"
        using findTripletsAt_shape [OF refl] by metis
      have fresh: "position (hd ?T) \<notin> position ` set U" if "U \<in> set ts" for U
      proof
        assume "position (hd ?T) \<in> position ` set U"
        then have "?key \<in> (\<lambda>t. coordKey (position t)) ` set U"
          by (auto simp: T ct)
        with that Cons.prems(1) notin show False by auto
      qed
      have "centresFresh (ts @ [?T])"
        unfolding centresFresh_def
      proof (intro allI impI)
        fix j assume j: "j < length (ts @ [?T])"
        show "length ((ts @ [?T]) ! j) = 3 \<and> distinct (map position ((ts @ [?T]) ! j))
          \<and> (\<forall>i<j. position (hd ((ts @ [?T]) ! j)) \<notin> position ` set ((ts @ [?T]) ! i))"
        proof (cases "j < length ts")
          case True
          with Cons.prems(2) show ?thesis
            by (auto simp: centresFresh_def nth_append)
        next
          case False
          with j have "j = length ts" by simp
          with True fresh findTripletsAt_distinct [OF refl, of g "position tile"]
          show ?thesis by (auto simp: nth_append)
        qed
      qed
      moreover have "\<forall>U \<in> set (ts @ [?T]).
          (\<lambda>t. coordKey (position t)) ` set U
            \<subseteq> insert ?key checked \<union> (\<lambda>t. coordKey (position t)) ` set ?T"
        using Cons.prems(1) by auto
      ultimately have "centresFresh (fst (findAllTripletsLoop g rest
          (ts @ [?T], insert ?key checked \<union> (\<lambda>t. coordKey (position t)) ` set ?T)))"
        by (intro Cons.IH)
      with notin True show ?thesis by (simp add: Let_def)
    qed
  qed
qed

text \<open>
  C2, as amended. In the list returned by one \<open>findAllTriplets\<close> scan, every triplet has
  three tiles on three different coordinates, and the centre (first tile) of a triplet is
  on no coordinate of a triplet recorded before it. The two neighbour tiles of a triplet
  can belong to an earlier triplet: only the centre is tested against the claimed
  coordinates.
\<close>

theorem findAllTriplets_centres:
  assumes "j < length (findAllTriplets g)"
  shows "length (findAllTriplets g ! j) = 3
    \<and> distinct (map position (findAllTriplets g ! j))
    \<and> (\<forall>i < j. position (hd (findAllTriplets g ! j)) \<notin> position ` set (findAllTriplets g ! i))"
proof -
  have "centresFresh (findAllTriplets g)"
    unfolding findAllTriplets_def by (rule findAllTripletsLoop_inv) (simp_all add: centresFresh_def)
  with assms show ?thesis by (simp add: centresFresh_def)
qed

lemma findAllTriplets_rhombusBoard:
  "findAllTriplets rhombusBoard
     = [[exTile ''a'' 2 0 0, exTile ''b'' 2 1 0, exTile ''c'' 2 0 1],
        [exTile ''d'' 2 1 1, exTile ''c'' 2 0 1, exTile ''b'' 2 1 0]]"
  by code_simp

text \<open>
  C2, as stated, fails: on the rhombus board the scan returns two triplets, and the tile
  \<open>b\<close> is in both.
\<close>

theorem findAllTriplets_overlap:
  "length (findAllTriplets rhombusBoard) = 2
   \<and> exTile ''b'' 2 1 0 \<in> set (findAllTriplets rhombusBoard ! 0)
   \<and> exTile ''b'' 2 1 0 \<in> set (findAllTriplets rhombusBoard ! 1)"
  by (simp add: findAllTriplets_rhombusBoard)

theorem findAllTriplets_centres_witness:
  "length (findAllTriplets rhombusBoard) = 2
   \<and> length (findAllTriplets rhombusBoard ! 1) = 3
   \<and> distinct (map position (findAllTriplets rhombusBoard ! 1))
   \<and> position (hd (findAllTriplets rhombusBoard ! 1)) \<notin> position ` set (findAllTriplets rhombusBoard ! 0)"
proof -
  have h: "1 < length (findAllTriplets rhombusBoard)"
    by (simp add: findAllTriplets_rhombusBoard)
  from findAllTriplets_centres [OF h] h show ?thesis
    by (simp add: findAllTriplets_rhombusBoard)
qed

section \<open>The position of a merged tile\<close>

lemma Math_round_third: "Math_round (of_int n / 3) = (n + 1) div 3"
proof -
  have "(of_int n :: rat) / 3 + 1 / 2 = of_int (2 * n + 3) / of_int 6"
    by (simp add: field_simps)
  then have "Math_round (of_int n / 3) = (2 * n + 3) div 6"
    unfolding Math_round_def by (simp only: floor_divide_of_int_eq)
  also have "\<dots> = (n + 1) div 3"
    by presburger
  finally show ?thesis .
qed

lemma in_getNeighbors:
  "\<lparr>q = a', r = b'\<rparr> \<in> set (getNeighbors \<lparr>q = a, r = b\<rparr>) \<longleftrightarrow>
     (a' = a - 1 \<and> b' = b + 1) \<or> (a' = a - 1 \<and> b' = b) \<or>
     (a' = a \<and> b' = b - 1) \<or> (a' = a + 1 \<and> b' = b - 1) \<or>
     (a' = a + 1 \<and> b' = b) \<or> (a' = a \<and> b' = b + 1)"
  by (auto simp: getNeighbors_def DIRECTION_VECTORS_def addCoords_def)

text \<open>
  Three coordinates that are neighbours of each other: the rounded average is one of them.
\<close>

lemma centroid_on_triplet:
  assumes "p2 \<in> set (getNeighbors p1)" "p3 \<in> set (getNeighbors p1)"
    "p3 \<in> set (getNeighbors p2)"
  shows "\<lparr>q = (q p1 + q p2 + q p3 + 1) div 3, r = (r p1 + r p2 + r p3 + 1) div 3\<rparr>
      \<in> {p1, p2, p3}"
proof -
  obtain a b where p1: "p1 = \<lparr>q = a, r = b\<rparr>" by (cases p1)
  obtain a2 b2 where p2: "p2 = \<lparr>q = a2, r = b2\<rparr>" by (cases p2)
  obtain a3 b3 where p3: "p3 = \<lparr>q = a3, r = b3\<rparr>" by (cases p3)
  from assms show ?thesis
    unfolding p1 p2 p3 in_getNeighbors
    by (elim disjE conjE) (simp_all, presburger+)
qed

lemma centerPosition_on_triplet:
  assumes "position t2 \<in> set (getNeighbors (position t1))"
    "position t3 \<in> set (getNeighbors (position t1))"
    "position t3 \<in> set (getNeighbors (position t2))"
  shows "centerPosition t1 t2 t3 \<in> {position t1, position t2, position t3}"
  using centroid_on_triplet [OF assms]
  by (simp only: centerPosition_def Math_round_third)

lemma getTileAtCoord_filteredGrid:
  assumes "distinct (map position g)" and "t \<in> set g" and "t \<in> set triplet"
  shows "getTileAtCoord (filteredGrid g triplet) (position t) = None"
proof -
  have "u = t" if "u \<in> set g" "position u = position t" for u
    using assms(1,2) that by (simp add: distinct_map inj_on_def)
  with assms(3) show ?thesis
    by (auto simp: getTileAtCoord_None filteredGrid_def)
qed





section \<open>The grid and its lines\<close>

lemma getAllGridCoords_eq:
  "getAllGridCoords =
    [\<lparr>q = - 2, r = 0\<rparr>, \<lparr>q = - 2, r = 1\<rparr>, \<lparr>q = - 2, r = 2\<rparr>,
     \<lparr>q = - 1, r = - 1\<rparr>, \<lparr>q = - 1, r = 0\<rparr>, \<lparr>q = - 1, r = 1\<rparr>, \<lparr>q = - 1, r = 2\<rparr>,
     \<lparr>q = 0, r = - 2\<rparr>, \<lparr>q = 0, r = - 1\<rparr>, \<lparr>q = 0, r = 0\<rparr>, \<lparr>q = 0, r = 1\<rparr>, \<lparr>q = 0, r = 2\<rparr>,
     \<lparr>q = 1, r = - 2\<rparr>, \<lparr>q = 1, r = - 1\<rparr>, \<lparr>q = 1, r = 0\<rparr>, \<lparr>q = 1, r = 1\<rparr>,
     \<lparr>q = 2, r = - 2\<rparr>, \<lparr>q = 2, r = - 1\<rparr>, \<lparr>q = 2, r = 0\<rparr>]"
  by code_simp

lemma isValidCoord_iff: "isValidCoord c \<longleftrightarrow> c \<in> set getAllGridCoords"
proof (cases c)
  case (fields a b)
  show ?thesis
  proof
    assume "isValidCoord c"
    then have v: "\<bar>a\<bar> \<le> 2" "\<bar>b\<bar> \<le> 2" "\<bar>- a - b\<bar> \<le> 2"
      by (simp_all add: fields isValidCoord_def getS_def radius_def GRID_SIZE_def)
    then have "a = - 2 \<or> a = - 1 \<or> a = 0 \<or> a = 1 \<or> a = 2"
      and "b = - 2 \<or> b = - 1 \<or> b = 0 \<or> b = 1 \<or> b = 2"
      by arith+
    with v(3) show "c \<in> set getAllGridCoords"
      unfolding getAllGridCoords_eq fields by (elim disjE) simp_all
  next
    assume "c \<in> set getAllGridCoords"
    then show "isValidCoord c"
      unfolding getAllGridCoords_eq
      by (auto simp: isValidCoord_def getS_def radius_def GRID_SIZE_def)
  qed
qed

lemma lines_checked:
  "distinct (concat (getAllLines NORTHEAST))
   \<and> set (concat (getAllLines NORTHEAST)) = set getAllGridCoords
   \<and> length (concat (getAllLines NORTHEAST)) = 19
   \<and> list_all (maximalRun NORTHEAST) (getAllLines NORTHEAST)"
  "distinct (concat (getAllLines EAST))
   \<and> set (concat (getAllLines EAST)) = set getAllGridCoords
   \<and> length (concat (getAllLines EAST)) = 19
   \<and> list_all (maximalRun EAST) (getAllLines EAST)"
  "distinct (concat (getAllLines SOUTHEAST))
   \<and> set (concat (getAllLines SOUTHEAST)) = set getAllGridCoords
   \<and> length (concat (getAllLines SOUTHEAST)) = 19
   \<and> list_all (maximalRun SOUTHEAST) (getAllLines SOUTHEAST)"
  "distinct (concat (getAllLines SOUTHWEST))
   \<and> set (concat (getAllLines SOUTHWEST)) = set getAllGridCoords
   \<and> length (concat (getAllLines SOUTHWEST)) = 19
   \<and> list_all (maximalRun SOUTHWEST) (getAllLines SOUTHWEST)"
  "distinct (concat (getAllLines WEST))
   \<and> set (concat (getAllLines WEST)) = set getAllGridCoords
   \<and> length (concat (getAllLines WEST)) = 19
   \<and> list_all (maximalRun WEST) (getAllLines WEST)"
  "distinct (concat (getAllLines NORTHWEST))
   \<and> set (concat (getAllLines NORTHWEST)) = set getAllGridCoords
   \<and> length (concat (getAllLines NORTHWEST)) = 19
   \<and> list_all (maximalRun NORTHWEST) (getAllLines NORTHWEST)"
  by code_simp+

text \<open>
  On the grid that the code builds, the lines of \<open>getAllLines\<close> have the structure that
  is expected of them: for every direction they partition the valid coordinates (every
  valid coordinate is in exactly one line, once), and every line is a maximal straight
  run along the direction. The valid coordinates are 19.
\<close>

theorem getAllLines_partition:
  "distinct (concat (getAllLines d))
   \<and> set (concat (getAllLines d)) = {c. isValidCoord c}
   \<and> length (concat (getAllLines d)) = 19
   \<and> (\<forall>line \<in> set (getAllLines d). maximalRun d line)"
proof -
  have "{c. isValidCoord c} = set getAllGridCoords"
    by (auto simp: isValidCoord_iff)
  with lines_checked show ?thesis
    by (cases d) (simp_all only: list_all_iff, simp_all)
qed

lemma eastLine_in: "[\<lparr>q = 2, r = 0\<rparr>, \<lparr>q = 1, r = 0\<rparr>, \<lparr>q = 0, r = 0\<rparr>, \<lparr>q = - 1, r = 0\<rparr>, \<lparr>q = - 2, r = 0\<rparr>]
     \<in> set (getAllLines EAST)"
  by code_simp

theorem getAllLines_partition_witness:
  "[\<lparr>q = 2, r = 0\<rparr>, \<lparr>q = 1, r = 0\<rparr>, \<lparr>q = 0, r = 0\<rparr>, \<lparr>q = - 1, r = 0\<rparr>, \<lparr>q = - 2, r = 0\<rparr>]
     \<in> set (getAllLines EAST)
   \<and> maximalRun EAST
        [\<lparr>q = 2, r = 0\<rparr>, \<lparr>q = 1, r = 0\<rparr>, \<lparr>q = 0, r = 0\<rparr>, \<lparr>q = - 1, r = 0\<rparr>, \<lparr>q = - 2, r = 0\<rparr>]
   \<and> length (concat (getAllLines EAST)) = 19"
  using getAllLines_partition [of EAST] eastLine_in by blast

text \<open>
  C7. The lines of a direction are to partition the 37 valid coordinates of the grid, the
  number that \<open>TOTAL_TILES\<close> declares for the 5-wide grid. The grid that \<open>getAllGridCoords\<close>
  builds from \<open>GRID_SIZE = 5\<close> has radius 2 and only 19 coordinates, and the lines of each
  of the six directions hold 19 coordinates together: the code does not build the grid
  of 37 coordinates that its own constant states.
\<close>

theorem grid_has_19_coordinates:
  "GRID_SIZE = 5 \<and> TOTAL_TILES = 37 \<and> radius = 2
   \<and> length getAllGridCoords = 19 \<and> length getAllGridCoords \<noteq> TOTAL_TILES
   \<and> map (\<lambda>d. length (concat (getAllLines d)))
         [EAST, SOUTHEAST, SOUTHWEST, WEST, NORTHWEST, NORTHEAST]
       = [19, 19, 19, 19, 19, 19]"
  by code_simp

section \<open>The board invariant under spawning and sliding\<close>

lemma validBoard_append1:
  assumes "validBoard g" and "isValidCoord (position t)" and "position t \<notin> position ` set g"
  shows "validBoard (g @ [t])"
  using assms by (auto simp: validBoard_def)

lemma validBoard_filter: "validBoard g \<Longrightarrow> validBoard (filter P g)"
  by (auto simp: validBoard_def distinct_map_filter)

lemma set_emptyCoords:
  "set (emptyCoords g) = {c \<in> set getAllGridCoords. c \<notin> position ` set g}"
  by (auto simp: emptyCoords_def coordsEqual_iff)

lemma validBoard_addRandomTile:
  assumes "validBoard g"
  shows "validBoard (addRandomTile sp g)"
proof (cases "emptyCoords g = []")
  case True
  with assms show ?thesis by (simp add: addRandomTile_def)
next
  case False
  let ?pos = "emptyCoords g ! (pick sp mod length (emptyCoords g))"
  from False have "?pos \<in> set (emptyCoords g)" by simp
  then have "isValidCoord ?pos" "?pos \<notin> position ` set g"
    by (simp_all add: set_emptyCoords isValidCoord_iff)
  with assms False show ?thesis
    by (simp add: addRandomTile_def Let_def validBoard_append1)
qed

lemma fst_placeTiles:
  "fst (placeTiles zs (g, m)) =
     g @ map (\<lambda>(p, t). \<lparr>tid = tid t, tvalue = tvalue t, position = p,
                        isNew = Some (orFalse (isNew t)),
                        isMerged = Some (orFalse (isMerged t))\<rparr>) zs"
  by (induction zs arbitrary: g m) auto

lemma getTileAtCoord_distinct:
  assumes "distinct (map position g)"
  shows "getTileAtCoord g c = Some t \<longleftrightarrow> t \<in> set g \<and> position t = c"
proof
  assume "getTileAtCoord g c = Some t"
  then show "t \<in> set g \<and> position t = c" by (rule getTileAtCoord_Some)
next
  assume t: "t \<in> set g \<and> position t = c"
  then have "getTileAtCoord g c \<noteq> None"
    by (auto simp: getTileAtCoord_None)
  then obtain u where u: "getTileAtCoord g c = Some u" by auto
  from getTileAtCoord_Some [OF u] t assms have "u = t"
    by (auto simp: distinct_map inj_on_def)
  with u show "getTileAtCoord g c = Some t" by simp
qed

lemma set_tilesInLine:
  assumes "distinct (map position g)"
  shows "set (tilesInLine g line) = {t \<in> set g. position t \<in> set line}"
  by (auto simp: tilesInLine_def set_map_filter_iff getTileAtCoord_distinct [OF assms])

lemma length_map_filter_le: "length (List.map_filter f xs) \<le> length xs"
  by (induction xs) (auto split: option.splits)

lemma length_tilesInLine: "length (tilesInLine g line) \<le> length line"
  by (simp add: tilesInLine_def length_map_filter_le)

lemma validBoard_slideLine:
  assumes g: "validBoard g" and dl: "distinct line" and vl: "\<forall>c \<in> set line. isValidCoord c"
  shows "validBoard (fst (slideLine line (g, m)))"
proof (cases "tilesInLine g line = []")
  case True
  with g show ?thesis by (simp add: slideLine_def)
next
  case False
  let ?inLine = "tilesInLine g line"
  let ?kept = "filter (\<lambda>tile. \<not> (\<exists>lineTile \<in> set ?inLine. tid lineTile = tid tile)) g"
  let ?mk = "\<lambda>(p, t). \<lparr>tid = tid t, tvalue = tvalue t, position = p,
                        isNew = Some (orFalse (isNew t)),
                        isMerged = Some (orFalse (isMerged t))\<rparr>"
  from g have dg: "distinct (map position g)" by (simp add: validBoard_def)
  have res: "fst (slideLine line (g, m)) = ?kept @ map ?mk (zip line ?inLine)"
    using False by (simp add: slideLine_def Let_def fst_placeTiles)
  have pos_new: "map position (map ?mk (zip line ?inLine)) = take (length ?inLine) line"
  proof -
    have "map position (map ?mk (zip line ?inLine)) = map fst (zip line ?inLine)"
      by (auto simp: comp_def split: prod.splits)
    also have "\<dots> = take (length ?inLine) line"
      using length_tilesInLine [of g line] by (simp add: map_fst_zip_take min_def)
    finally show ?thesis .
  qed
  have kept_off: "position t \<notin> set line" if "t \<in> set ?kept" for t
  proof
    assume "position t \<in> set line"
    with that have "t \<in> set ?inLine" by (simp add: set_tilesInLine [OF dg])
    with that show False by auto
  qed
  have "distinct (map position ?kept)"
    using dg by (rule distinct_map_filter)
  moreover have "distinct (take (length ?inLine) line)"
    using dl by simp
  moreover have "set (map position ?kept) \<inter> set (take (length ?inLine) line) = {}"
    using kept_off by (auto dest: in_set_takeD)
  ultimately have "distinct (map position (fst (slideLine line (g, m))))"
    by (simp add: res pos_new del: map_map)
  moreover have "\<forall>t \<in> set (fst (slideLine line (g, m))). isValidCoord (position t)"
  proof
    fix t assume "t \<in> set (fst (slideLine line (g, m)))"
    then consider "t \<in> set ?kept" | "t \<in> set (map ?mk (zip line ?inLine))"
      unfolding res set_append by blast
    then show "isValidCoord (position t)"
    proof cases
      case 1
      with g show ?thesis by (simp add: validBoard_def)
    next
      case 2
      then have "position t \<in> set (map position (map ?mk (zip line ?inLine)))"
        by (simp del: map_map)
      then have "position t \<in> set line"
        unfolding pos_new by (rule in_set_takeD)
      with vl show ?thesis by simp
    qed
  qed
  ultimately show ?thesis by (simp add: validBoard_def)
qed

lemma validBoard_fold_slideLine:
  assumes "validBoard (fst st)"
    and "\<forall>line \<in> set ls. distinct line \<and> (\<forall>c \<in> set line. isValidCoord c)"
  shows "validBoard (fst (fold slideLine ls st))"
  using assms
proof (induction ls arbitrary: st)
  case Nil
  then show ?case by simp
next
  case (Cons line ls)
  obtain g m where st: "st = (g, m)" by (cases st)
  from Cons.prems have "validBoard (fst (slideLine line (g, m)))"
    by (intro validBoard_slideLine) (simp_all add: st)
  with Cons show ?case by (simp add: st)
qed

lemma distinct_concat_member: "distinct (concat xss) \<Longrightarrow> xs \<in> set xss \<Longrightarrow> distinct xs"
  by (induction xss) auto

lemma validBoard_resetGrid: "validBoard (resetGrid g) \<longleftrightarrow> validBoard g"
  by (simp add: validBoard_def resetGrid_def comp_def)

lemma validBoard_slideAll:
  assumes "validBoard g"
  shows "validBoard (fst (slideAll d (resetGrid g)))"
  unfolding slideAll_def
proof (rule validBoard_fold_slideLine)
  show "validBoard (fst (resetGrid g, False))"
    using assms by (simp add: validBoard_resetGrid)
  show "\<forall>line \<in> set (getAllLines d). distinct line \<and> (\<forall>c \<in> set line. isValidCoord c)"
  proof
    fix line assume l: "line \<in> set (getAllLines d)"
    have *: "distinct (concat (getAllLines d))"
      "set (concat (getAllLines d)) = set getAllGridCoords"
      using lines_checked by (cases d; simp)+
    from *(1) l have "distinct line" by (rule distinct_concat_member)
    moreover from *(2) l have "\<forall>c \<in> set line. isValidCoord c"
      by (auto simp: isValidCoord_iff)
    ultimately show "distinct line \<and> (\<forall>c \<in> set line. isValidCoord c)" ..
  qed
qed

section \<open>The board invariant under merging\<close>

lemma findAllTripletsLoop_members:
  assumes "\<forall>T \<in> set ts. \<exists>c. findTripletsAt g c = T \<and> T \<noteq> []"
    and "T \<in> set (fst (findAllTripletsLoop g rest (ts, checked)))"
  shows "\<exists>c. findTripletsAt g c = T \<and> T \<noteq> []"
  using assms
proof (induction rest arbitrary: ts checked)
  case Nil
  then show ?case by simp
next
  case (Cons tile rest)
  let ?T = "findTripletsAt g (position tile)"
  show ?case
  proof (cases "coordKey (position tile) \<in> checked")
    case True
    from Cons.IH [OF Cons.prems(1)] Cons.prems(2) True show ?thesis
      by simp
  next
    case notin: False
    show ?thesis
    proof (cases "length ?T = 3")
      case True
      then have "?T \<noteq> []" by auto
      with Cons.prems(1)
      have "\<forall>U \<in> set (ts @ [?T]). \<exists>c. findTripletsAt g c = U \<and> U \<noteq> []"
        by auto
      from Cons.IH [OF this] Cons.prems(2) notin True show ?thesis
        by (simp add: Let_def)
    next
      case False
      from Cons.IH [OF Cons.prems(1)] Cons.prems(2) notin False show ?thesis
        by (simp add: Let_def)
    qed
  qed
qed

lemma findAllTriplets_member:
  assumes "T \<in> set (findAllTriplets g)"
  obtains t1 t2 t3 where "T = [t1, t2, t3]"
    "t1 \<in> set g" "t2 \<in> set g" "t3 \<in> set g"
    "position t2 \<in> set (getNeighbors (position t1))"
    "position t3 \<in> set (getNeighbors (position t1))"
    "position t3 \<in> set (getNeighbors (position t2))"
    "tvalue t2 = tvalue t1" "tvalue t3 = tvalue t1"
proof -
  from assms have "\<exists>c. findTripletsAt g c = T \<and> T \<noteq> []"
    unfolding findAllTriplets_def by (intro findAllTripletsLoop_members [of "[]"]) simp_all
  then obtain c where "findTripletsAt g c = T" "T \<noteq> []" by blast
  then obtain ct a b where "T = [ct, a, b]" "position ct = c"
    "ct \<in> set g" "a \<in> set g" "b \<in> set g"
    "position a \<in> set (getNeighbors c)" "position b \<in> set (getNeighbors c)"
    "position b \<in> set (getNeighbors (position a))"
    "tvalue a = tvalue ct" "tvalue b = tvalue ct"
    by (rule findTripletsAt_shape)
  then show ?thesis by (intro that [of ct a b]) simp_all
qed

lemma filteredGrid_subset: "set (filteredGrid g triplet) \<subseteq> set g"
  by (auto simp: filteredGrid_def)

lemma validBoard_mergeTriplet:
  assumes vb: "validBoard ng"
    and mem: "t1 \<in> set ng" "t2 \<in> set ng" "t3 \<in> set ng"
    and nbs: "position t2 \<in> set (getNeighbors (position t1))"
      "position t3 \<in> set (getNeighbors (position t1))"
      "position t3 \<in> set (getNeighbors (position t2))"
  shows "validBoard (fst (mergeTriplet nid ng [t1, t2, t3]))"
proof (cases "getNextValue (tvalue t1)")
  case None
  with vb show ?thesis by simp
next
  case (Some nextValue)
  let ?new = "\<lparr>tid = nid, tvalue = nextValue, position = centerPosition t1 t2 t3,
                isNew = None, isMerged = Some True\<rparr>"
  have res: "fst (mergeTriplet nid ng [t1, t2, t3]) = filteredGrid ng [t1, t2, t3] @ [?new]"
    using Some by (simp add: Let_def)
  from centerPosition_on_triplet [OF nbs] obtain t where t: "t \<in> {t1, t2, t3}"
    and cp: "centerPosition t1 t2 t3 = position t" by auto
  from t mem have tn: "t \<in> set ng" by auto
  from vb have dn: "distinct (map position ng)" by (simp add: validBoard_def)
  from t have "getTileAtCoord (filteredGrid ng [t1, t2, t3]) (position t) = None"
    by (intro getTileAtCoord_filteredGrid [OF dn tn]) auto
  then have "position ?new \<notin> position ` set (filteredGrid ng [t1, t2, t3])"
    by (simp add: cp getTileAtCoord_None)
  moreover from vb tn have "isValidCoord (position ?new)"
    by (simp add: cp validBoard_def)
  moreover from vb have "validBoard (filteredGrid ng [t1, t2, t3])"
    unfolding filteredGrid_def by (rule validBoard_filter)
  ultimately show ?thesis
    unfolding res by (intro validBoard_append1)
qed

text \<open>
  The tiles of a \<open>mergeTriplet\<close> result: tiles of the input whose id is not an id of the
  triplet, and at most one new tile, which carries the new id.
\<close>

lemma set_mergeTriplet:
  assumes "u \<in> set (fst (mergeTriplet nid ng T))"
  shows "u \<in> set ng \<or> tid u = nid"
proof (cases "(nid, ng, T)" rule: mergeTriplet.cases)
  case (1 newId g tile1 tile2 tile3)
  with assms show ?thesis
    by (cases "getNextValue (tvalue tile1)")
       (auto simp: Let_def dest: subsetD [OF filteredGrid_subset])
qed (use assms in auto)

lemma mergeTriplet_keeps:
  assumes "u \<in> set ng" and "tid u \<noteq> nid" and "T = [t1, t2, t3]"
  shows "u \<in> set (fst (mergeTriplet nid ng T)) \<longleftrightarrow>
     (getNextValue (tvalue t1) = None \<or> tid u \<notin> tid ` set T)"
  using assms
  by (cases "getNextValue (tvalue t1)") (auto simp: Let_def filteredGrid_def)


lemma passInv_start: "validBoard g0 \<Longrightarrow> passInv ids k g0 k g0"
  by (simp add: passInv_def)

text \<open>
  One merge inside a pass. The ids of the triplet are all on the working board, the new
  id is on no tile of the board the pass started from: then the three tiles themselves
  are still on the working board, and the invariant of the pass is kept.
\<close>

lemma passInv_mergeTriplet:
  assumes fresh: "\<forall>j \<ge> k. ids j \<notin> tid ` set g0"
    and T: "T \<in> set (findAllTriplets g0)"
    and J: "passInv ids k g0 k' ng"
    and present: "\<forall>t \<in> set T. \<exists>nt \<in> set ng. tid nt = tid t"
  shows "passInv ids k g0 (Suc k') (fst (mergeTriplet (ids k') ng T))"
proof -
  from T obtain t1 t2 t3 where T3: "T = [t1, t2, t3]"
    and g0: "t1 \<in> set g0" "t2 \<in> set g0" "t3 \<in> set g0"
    and nbs: "position t2 \<in> set (getNeighbors (position t1))"
      "position t3 \<in> set (getNeighbors (position t1))"
      "position t3 \<in> set (getNeighbors (position t2))"
    by (rule findAllTriplets_member)
  from J have kk: "k \<le> k'" and vb: "validBoard ng"
    by (simp_all add: passInv_def)
  from J have origin: "t \<in> set g0 \<or> (\<exists>j. k \<le> j \<and> j < k' \<and> tid t = ids j)"
    if "t \<in> set ng" for t
    unfolding passInv_def using that by blast
  from J have together: "t \<in> set ng \<longleftrightarrow> u \<in> set ng"
    if "t \<in> set g0" "u \<in> set g0" "tid t = tid u" for t u
    unfolding passInv_def using that by blast
  have still: "t \<in> set ng" if "t \<in> set T" for t
  proof -
    from that g0 have tg: "t \<in> set g0" by (auto simp: T3)
    from present that obtain nt where nt: "nt \<in> set ng" "tid nt = tid t" by blast
    have "nt \<in> set g0"
    proof (rule ccontr)
      assume "nt \<notin> set g0"
      with origin [OF nt(1)] obtain j where j: "k \<le> j" "tid nt = ids j" by blast
      from fresh j(1) have "ids j \<notin> tid ` set g0" by blast
      moreover from tg have "tid t \<in> tid ` set g0" by (rule imageI)
      ultimately show False using nt(2) j(2) by simp
    qed
    from together [OF this tg nt(2)] nt(1) show ?thesis by simp
  qed
  let ?mg = "fst (mergeTriplet (ids k') ng T)"
  have not_new: "tid w \<noteq> ids k'" if "w \<in> set g0" for w
  proof
    assume "tid w = ids k'"
    with that have "ids k' \<in> tid ` set g0" by (metis imageI)
    with fresh kk show False by blast
  qed
  have old: "w \<in> set ?mg \<longleftrightarrow>
      w \<in> set ng \<and> (getNextValue (tvalue t1) = None \<or> tid w \<notin> tid ` set T)"
    if "w \<in> set g0" for w
  proof (cases "w \<in> set ng")
    case True
    from mergeTriplet_keeps [OF True not_new [OF that] T3] True show ?thesis
      by (simp only: simp_thms)
  next
    case False
    have "w \<notin> set ?mg"
    proof
      assume "w \<in> set ?mg"
      from set_mergeTriplet [OF this] False not_new [OF that] show False by blast
    qed
    with False show ?thesis by (simp only: simp_thms)
  qed
  have "t1 \<in> set ng" "t2 \<in> set ng" "t3 \<in> set ng"
    using still by (simp_all add: T3)
  then have vmg: "validBoard ?mg"
    unfolding T3 by (rule validBoard_mergeTriplet [OF vb _ _ _ nbs])
  have origin': "u \<in> set g0 \<or> (\<exists>j. k \<le> j \<and> j < Suc k' \<and> tid u = ids j)"
    if "u \<in> set ?mg" for u
  proof -
    from set_mergeTriplet [OF that] show ?thesis
    proof
      assume "u \<in> set ng"
      from origin [OF this] show ?thesis by (auto simp: less_Suc_eq)
    next
      assume "tid u = ids k'"
      with kk show ?thesis by auto
    qed
  qed
  have together': "t \<in> set ?mg \<longleftrightarrow> u \<in> set ?mg"
    if "t \<in> set g0" "u \<in> set g0" "tid t = tid u" for t u
  proof -
    have "t \<in> set ?mg \<longleftrightarrow>
        t \<in> set ng \<and> (getNextValue (tvalue t1) = None \<or> tid t \<notin> tid ` set T)"
      by (rule old [OF that(1)])
    also have "\<dots> \<longleftrightarrow>
        u \<in> set ng \<and> (getNextValue (tvalue t1) = None \<or> tid u \<notin> tid ` set T)"
      using together [OF that] that(3) by (simp only:)
    also have "\<dots> \<longleftrightarrow> u \<in> set ?mg"
      by (rule old [OF that(2), symmetric])
    finally show ?thesis .
  qed
  show ?thesis
    unfolding passInv_def
  proof (intro conjI ballI impI)
    show "k \<le> Suc k'" using kk by simp
    show "validBoard ?mg" by (rule vmg)
    show "u \<in> set g0 \<or> (\<exists>j. k \<le> j \<and> j < Suc k' \<and> tid u = ids j)"
      if "u \<in> set ?mg" for u
      using that by (rule origin')
    show "t \<in> set ?mg \<longleftrightarrow> u \<in> set ?mg"
      if "t \<in> set g0" "u \<in> set g0" "tid t = tid u" for t u
      using that by (rule together')
  qed
qed

lemma mergeStep_passInv:
  assumes fresh: "\<forall>j \<ge> k. ids j \<notin> tid ` set g0"
    and found: "\<forall>T \<in> set ts. T \<in> set (findAllTriplets g0)"
    and J: "passInv ids k g0 k' ng"
    and res: "mergeStep ids ts (k', ng, sc) = (k'', ng'', sc'')"
  shows "passInv ids k g0 k'' ng''"
  using found J res
proof (induction ts arbitrary: k' ng sc)
  case Nil
  then show ?case by simp
next
  case (Cons T ts)
  show ?case
  proof (cases "\<exists>t \<in> set T. \<not> (\<exists>nt \<in> set ng. tid nt = tid t)")
    case True
    have "mergeStep ids (T # ts) (k', ng, sc) = mergeStep ids ts (k', ng, sc)"
      by (simp only: mergeStep.simps Let_def True not_True_eq_False if_False)
    with Cons.prems(3) have "mergeStep ids ts (k', ng, sc) = (k'', ng'', sc'')"
      by simp
    with Cons.IH Cons.prems(1,2) show ?thesis by simp
  next
    case False
    obtain mg si where m: "mergeTriplet (ids k') ng T = (mg, si)"
      by (cases "mergeTriplet (ids k') ng T")
    from False have all: "\<forall>t \<in> set T. \<exists>nt \<in> set ng. tid nt = tid t" by blast
    have "mergeStep ids (T # ts) (k', ng, sc) = mergeStep ids ts (Suc k', mg, sc + si)"
      by (simp only: mergeStep.simps Let_def False not_False_eq_True if_True m prod.case)
    with Cons.prems(3) have "mergeStep ids ts (Suc k', mg, sc + si) = (k'', ng'', sc'')"
      by simp
    moreover have "passInv ids k g0 (Suc k') mg"
      using passInv_mergeTriplet [OF fresh _ Cons.prems(2) all] Cons.prems(1)
      by (simp add: m)
    ultimately show ?thesis
      using Cons.IH Cons.prems(1) by simp
  qed
qed

lemma passInv_fresh:
  assumes "passInv ids k g0 k' ng" and "inj ids" and "\<forall>j \<ge> k. ids j \<notin> tid ` set g0"
  shows "\<forall>j \<ge> k'. ids j \<notin> tid ` set ng"
proof (intro allI impI notI)
  fix j assume j: "k' \<le> j" and "ids j \<in> tid ` set ng"
  then obtain t where t: "t \<in> set ng" "tid t = ids j" by auto
  from assms(1) have kk: "k \<le> k'" by (simp add: passInv_def)
  from assms(1) t(1) have "t \<in> set g0 \<or> (\<exists>i. k \<le> i \<and> i < k' \<and> tid t = ids i)"
    unfolding passInv_def by blast
  then show False
  proof
    assume tg: "t \<in> set g0"
    from kk j have "k \<le> j" by simp
    with assms(3) have "ids j \<notin> tid ` set g0" by blast
    with tg t(2) show False by force
  next
    assume "\<exists>i. k \<le> i \<and> i < k' \<and> tid t = ids i"
    then obtain i where "i < k'" "ids i = ids j" using t(2) by auto
    with assms(2) j show False by (auto dest: injD)
  qed
qed

text \<open>The pass loop keeps the board invariant, when it returns.\<close>

lemma validBoard_resolveLoop:
  assumes ret: "resolveLoop ids k g s = Some y"
  shows "inj ids \<longrightarrow> validBoard g \<longrightarrow> (\<forall>j \<ge> k. ids j \<notin> tid ` set g) \<longrightarrow> validBoard (fst y)"
proof (rule resolveLoop.raw_induct [OF _ ret,
    where P = "\<lambda>ids k g s y. inj ids \<longrightarrow> validBoard g \<longrightarrow> (\<forall>j \<ge> k. ids j \<notin> tid ` set g)
       \<longrightarrow> validBoard (fst y)"])
  fix rl :: "(nat \<Rightarrow> string) \<Rightarrow> nat \<Rightarrow> Tile list \<Rightarrow> int \<Rightarrow> (Tile list \<times> int) option"
  fix ids k currentGrid totalScore y
  assume IH: "\<And>ids k g s y. rl ids k g s = Some y \<Longrightarrow>
      inj ids \<longrightarrow> validBoard g \<longrightarrow> (\<forall>j \<ge> k. ids j \<notin> tid ` set g) \<longrightarrow> validBoard (fst y)"
  assume step: "(let triplets = findAllTriplets currentGrid in
      if length triplets = 0 then Some (currentGrid, totalScore)
      else case mergeStep ids triplets (k, currentGrid, 0) of
             (k', newGrid, stepScore) \<Rightarrow> rl ids k' newGrid (totalScore + stepScore)) = Some y"
  show "inj ids \<longrightarrow> validBoard currentGrid \<longrightarrow> (\<forall>j \<ge> k. ids j \<notin> tid ` set currentGrid)
      \<longrightarrow> validBoard (fst y)"
  proof (intro impI)
    assume inj: "inj ids" and vb: "validBoard currentGrid"
      and fresh: "\<forall>j \<ge> k. ids j \<notin> tid ` set currentGrid"
    show "validBoard (fst y)"
    proof (cases "findAllTriplets currentGrid = []")
      case True
      with step have "y = (currentGrid, totalScore)" by simp
      with vb show ?thesis by simp
    next
      case False
      obtain k' newGrid stepScore where
        pass: "mergeStep ids (findAllTriplets currentGrid) (k, currentGrid, 0)
          = (k', newGrid, stepScore)"
        by (cases "mergeStep ids (findAllTriplets currentGrid) (k, currentGrid, 0)")
      from step False have rec: "rl ids k' newGrid (totalScore + stepScore) = Some y"
        by (simp add: pass)
      have J: "passInv ids k currentGrid k' newGrid"
        using mergeStep_passInv [OF fresh _ passInv_start [OF vb] pass] by simp
      then have "validBoard newGrid" by (simp add: passInv_def)
      moreover have "\<forall>j \<ge> k'. ids j \<notin> tid ` set newGrid"
        by (rule passInv_fresh [OF J inj fresh])
      ultimately show ?thesis using IH [OF rec] inj by simp
    qed
  qed
qed


section \<open>The invariant of the reachable states\<close>

lemma tid_slideLine: "tid ` set (fst (slideLine line (g, m))) \<subseteq> tid ` set g"
proof (cases "tilesInLine g line = []")
  case True
  then show ?thesis by (simp add: slideLine_def)
next
  case False
  let ?inLine = "tilesInLine g line"
  let ?kept = "filter (\<lambda>tile. \<not> (\<exists>lineTile \<in> set ?inLine. tid lineTile = tid tile)) g"
  let ?mk = "\<lambda>(p, t). \<lparr>tid = tid t, tvalue = tvalue t, position = p,
                        isNew = Some (orFalse (isNew t)),
                        isMerged = Some (orFalse (isMerged t))\<rparr>"
  have res: "fst (slideLine line (g, m)) = ?kept @ map ?mk (zip line ?inLine)"
    using False by (simp add: slideLine_def Let_def fst_placeTiles)
  have in_g: "t \<in> set g" if "t \<in> set ?inLine" for t
    using that by (auto simp: tilesInLine_def set_map_filter_iff dest: getTileAtCoord_Some)
  show ?thesis
  proof
    fix i assume "i \<in> tid ` set (fst (slideLine line (g, m)))"
    then obtain u where u: "u \<in> set ?kept \<or> u \<in> set (map ?mk (zip line ?inLine))"
      and i: "i = tid u"
      unfolding res set_append by blast
    from u show "i \<in> tid ` set g"
    proof
      assume "u \<in> set ?kept"
      then show ?thesis by (simp add: i)
    next
      assume "u \<in> set (map ?mk (zip line ?inLine))"
      then obtain p t where "(p, t) \<in> set (zip line ?inLine)" and "u = ?mk (p, t)"
        by auto
      then have "t \<in> set ?inLine" and "tid u = tid t"
        by (auto dest: set_zip_rightD)
      with in_g show ?thesis by (auto simp: i)
    qed
  qed
qed

lemma tid_fold_slideLine: "tid ` set (fst (fold slideLine ls st)) \<subseteq> tid ` set (fst st)"
proof (induction ls arbitrary: st)
  case Nil
  then show ?case by simp
next
  case (Cons line ls)
  obtain g m where st: "st = (g, m)" by (cases st)
  from Cons [of "slideLine line (g, m)"] tid_slideLine [of line g m] show ?case
    by (auto simp: st)
qed

lemma tid_slideAll: "tid ` set (fst (slideAll d (resetGrid g))) \<subseteq> tid ` set g"
proof -
  have "tid ` set (resetGrid g) = tid ` set g"
    by (simp add: resetGrid_def image_image)
  with tid_fold_slideLine [of "getAllLines d" "(resetGrid g, False)"] show ?thesis
    by (simp add: slideAll_def)
qed

lemma validBoard_resolveAllMerges:
  assumes "resolveAllMerges ids g = Some (g', sc)" and "freshIds ids g" and "validBoard g"
  shows "validBoard g'"
  using validBoard_resolveLoop [of ids 0 g 0 "(g', sc)"] assms
  by (simp add: resolveAllMerges_def freshIds_def)

lemma validBoard_fold_addRandomTile:
  "validBoard g \<Longrightarrow> validBoard (fold (\<lambda>i g. addRandomTile (sps i) g) is g)"
  by (induction "is" arbitrary: g) (simp_all add: validBoard_addRandomTile)

lemma stateInv_initializeGameState: "stateInv (initializeGameState sps)"
proof -
  have "validBoard []" by (simp add: validBoard_def)
  then have "validBoard (fold (\<lambda>i g. addRandomTile (sps i) g) [0..<5] [])"
    by (rule validBoard_fold_addRandomTile)
  then show ?thesis
    by (simp add: stateInv_def initializeGameState_def initializeGrid_def)
qed

lemma stateInv_moveInDirection:
  assumes inv: "stateInv S" and fresh: "freshIds (mergeIds dr) (grid S)"
    and ret: "moveInDirection dr S d = Some S'"
  shows "stateInv S'"
proof (cases "snd (slideAll d (resetGrid (grid S)))")
  case False
  with ret have "S' = S"
    by (cases "slideAll d (resetGrid (grid S))") (simp add: moveInDirection_def)
  with inv show ?thesis by simp
next
  case True
  let ?slid = "fst (slideAll d (resetGrid (grid S)))"
  from True ret obtain mergedGrid scoreIncrease where
    res: "resolveAllMerges (mergeIds dr) ?slid = Some (mergedGrid, scoreIncrease)"
    and S': "S' = S\<lparr>grid := addRandomTile (spawn dr) mergedGrid,
            score := score S + scoreIncrease,
            bestScore := max (bestScore S) (score S + scoreIncrease),
            isWon := (highestTile (addRandomTile (spawn dr) mergedGrid) \<ge> 1062882),
            isGameOver := (length (emptyCoords (addRandomTile (spawn dr) mergedGrid)) = 0
               \<and> \<not> canMergeAnywhere (addRandomTile (spawn dr) mergedGrid)),
            canUndo := True,
            history := history S @ [\<lparr>snap_grid = grid S, snap_score = score S\<rparr>]\<rparr>"
    by (rule moveInDirection_moved)
  from inv have vg: "validBoard (grid S)" by (simp add: stateInv_def)
  then have "validBoard ?slid" by (rule validBoard_slideAll)
  moreover from fresh tid_slideAll [of d "grid S"] have "freshIds (mergeIds dr) ?slid"
    unfolding freshIds_def by blast
  ultimately have "validBoard mergedGrid"
    using res validBoard_resolveAllMerges by blast
  then have "validBoard (addRandomTile (spawn dr) mergedGrid)"
    by (rule validBoard_addRandomTile)
  with inv vg show ?thesis
    by (simp add: S' stateInv_def)
qed

lemma stateInv_undoMove:
  assumes "stateInv S"
  shows "stateInv (undoMove S)"
proof (cases "\<not> canUndo S \<or> length (history S) = 0 \<or> undosRemaining S \<le> 0")
  case True
  with assms show ?thesis by (simp add: undoMove_def)
next
  case False
  then have ne: "history S \<noteq> []" by auto
  then have "last (history S) \<in> set (history S)" by simp
  with assms have "validBoard (snap_grid (last (history S)))" by (simp add: stateInv_def)
  moreover from assms have "\<forall>h \<in> set (butlast (history S)). validBoard (snap_grid h)"
    by (auto simp: stateInv_def dest: in_set_butlastD)
  ultimately show ?thesis
    using False by (simp add: undoMove_def stateInv_def Let_def)
qed

lemma stateInv_resetGame: "stateInv (resetGame sps S)"
  using stateInv_initializeGameState [of sps]
  by (simp add: resetGame_def stateInv_def)

lemma reachable_stateInv: "reachable freshIds S \<Longrightarrow> stateInv S"
proof (induction rule: reachable.induct)
  case (reach_init sps)
  show ?case by (rule stateInv_initializeGameState)
next
  case (reach_move S dr d S')
  from reach_move.IH reach_move.hyps(2,3) show ?case
    by (rule stateInv_moveInDirection)
next
  case (reach_undo S)
  from reach_undo.IH show ?case by (rule stateInv_undoMove)
next
  case (reach_reset S sps)
  show ?case by (rule stateInv_resetGame)
next
  case (reach_budget S n)
  then show ?case by (simp add: stateInv_def)
qed

lemma validBoard_length:
  assumes "validBoard g"
  shows "length g \<le> length getAllGridCoords"
proof -
  from assms have "distinct (map position g)"
    and sub: "set (map position g) \<subseteq> set getAllGridCoords"
    by (auto simp: validBoard_def isValidCoord_iff)
  then have "length g = card (set (map position g))"
    using distinct_card [of "map position g"] by simp
  also from sub have "\<dots> \<le> card (set getAllGridCoords)"
    by (intro card_mono) simp_all
  also have "\<dots> \<le> length getAllGridCoords"
    by (rule card_length)
  finally show ?thesis .
qed

text \<open>
  C8. In every state reachable from \<open>initializeGameState\<close> by moves, undos and resets,
  whatever the spawn draws, no two tiles of the board share a position, every tile is on
  a valid coordinate, and the number of tiles is at most the number of valid coordinates
  of the grid, and at most 37. Ids are unique, as the data model has them: the ids drawn
  for the merged tiles of a move are new (not on the board, not drawn twice).
\<close>

theorem reachable_board_invariant:
  assumes "reachable freshIds S"
  shows "distinct (map position (grid S))
    \<and> (\<forall>t \<in> set (grid S). isValidCoord (position t))
    \<and> length (grid S) \<le> length getAllGridCoords
    \<and> length (grid S) \<le> TOTAL_TILES"
proof -
  from assms have vb: "validBoard (grid S)"
    using reachable_stateInv by (simp add: stateInv_def)
  from validBoard_length [OF vb] have "length (grid S) \<le> 19"
    by (simp add: getAllGridCoords_eq)
  with vb validBoard_length [OF vb] show ?thesis
    by (simp add: validBoard_def TOTAL_TILES_def)
qed


lemma grid_initial_example:
  "grid (initializeGameState exSpawns) =
     [\<lparr>tid = ''t'', tvalue = 2, position = \<lparr>q = - 2, r = 0\<rparr>,
        isNew = Some True, isMerged = Some False\<rparr>,
      \<lparr>tid = ''tt'', tvalue = 2, position = \<lparr>q = - 1, r = 0\<rparr>,
        isNew = Some True, isMerged = Some False\<rparr>,
      \<lparr>tid = ''ttt'', tvalue = 6, position = \<lparr>q = 0, r = - 1\<rparr>,
        isNew = Some True, isMerged = Some False\<rparr>,
      \<lparr>tid = ''tttt'', tvalue = 2, position = \<lparr>q = 1, r = - 2\<rparr>,
        isNew = Some True, isMerged = Some False\<rparr>,
      \<lparr>tid = ''ttttt'', tvalue = 2, position = \<lparr>q = 2, r = - 2\<rparr>,
        isNew = Some True, isMerged = Some False\<rparr>]"
  by code_simp

lemma move_initial_example:
  "moveInDirection exDraws (initializeGameState exSpawns) WEST = Some initMoved"
  by code_simp

lemma freshIds_example: "freshIds (mergeIds exDraws) (grid (initializeGameState exSpawns))"
proof -
  have "inj (\<lambda>k. replicate (Suc k) CHR ''m'')"
  proof (rule injI)
    fix x y :: nat
    assume "replicate (Suc x) CHR ''m'' = replicate (Suc y) CHR ''m''"
    then have "length (replicate (Suc x) CHR ''m'') = length (replicate (Suc y) CHR ''m'')"
      by (rule arg_cong)
    then show "x = y" by simp
  qed
  then show ?thesis
    by (simp add: freshIds_def exDraws_def grid_initial_example)
qed

theorem reachable_board_invariant_witness:
  "reachable freshIds initMoved
   \<and> distinct (map position (grid initMoved))
   \<and> length (grid initMoved) = 6
   \<and> length (grid initMoved) \<le> length getAllGridCoords
   \<and> length (grid initMoved) \<le> TOTAL_TILES"
proof -
  have r: "reachable freshIds initMoved"
    using reach_init freshIds_example move_initial_example by (rule reach_move)
  have "length (grid initMoved) = 6"
    by (simp add: initMoved_def)
  with reachable_board_invariant [OF r] r show ?thesis by simp
qed

section \<open>The merge of one triplet\<close>

lemma getNextValue_index:
  assumes "i + 1 < length TILE_VALUES"
  shows "getNextValue (TILE_VALUES ! i) = Some (TILE_VALUES ! (i + 1))"
proof -
  have "[0..<12] = [0, 1, 2, 3, 4, 5, 6, 7, 8, 9, 10, 11 :: nat]"
    by code_simp
  moreover from assms have "i \<in> set [0..<12]"
    by (simp add: TILE_VALUES_def)
  ultimately have "i \<in> set [0, 1, 2, 3, 4, 5, 6, 7, 8, 9, 10, 11 :: nat]"
    by simp
  then show ?thesis
    unfolding set_simps
    by (elim insertE emptyE) (simp_all add: getNextValue_def indexOf_def TILE_VALUES_def)
qed

lemma filteredGrid_distinct_ids:
  assumes "distinct (map tid g)" and "set triplet \<subseteq> set g"
  shows "filteredGrid g triplet = filter (\<lambda>t. t \<notin> set triplet) g"
proof -
  have "(\<exists>t \<in> set triplet. tid t = tid u) \<longleftrightarrow> u \<in> set triplet" if "u \<in> set g" for u
    using assms that by (auto simp: distinct_map inj_on_def)
  then show ?thesis
    unfolding filteredGrid_def by (intro filter_cong) auto
qed

lemma neighbor_sym:
  assumes "p \<in> set (getNeighbors c)"
  shows "c \<in> set (getNeighbors p)"
proof -
  obtain a b where c: "c = \<lparr>q = a, r = b\<rparr>" by (cases c)
  obtain a' b' where p: "p = \<lparr>q = a', r = b'\<rparr>" by (cases p)
  from assms show ?thesis
    unfolding c p in_getNeighbors by (elim disjE conjE) simp_all
qed

lemma map_filter_empty: "(\<forall>x \<in> set xs. f x = None) \<Longrightarrow> List.map_filter f xs = []"
  by (induction xs) auto

lemma findTripletsAt_single: "findTripletsAt [t] c = []"
proof (cases "getTileAtCoord [t] c")
  case None
  then show ?thesis by (simp add: findTripletsAt_def)
next
  case (Some ct)
  then have c: "c = position t" and ct: "ct = t"
    using getTileAtCoord_Some [OF Some] by auto
  have "getTileAtCoord [t] n = None" if "n \<in> set (getNeighbors c)" for n
    using that not_own_neighbor [of c] by (auto simp: getTileAtCoord_None c)
  then have "matchingNeighbors [t] c ct = []"
    by (simp add: matchingNeighbors_def map_filter_empty)
  with Some show ?thesis by (simp add: findTripletsAt_def)
qed

lemma findAllTriplets_single: "findAllTriplets [t] = []"
  by (simp add: findAllTriplets_def findTripletsAt_single)

lemma map_filter_one:
  assumes "distinct ns" and "p \<in> set ns"
    and "\<forall>n \<in> set ns. f n = (if n = p then Some t else None)"
  shows "List.map_filter f ns = [t]"
  using assms
proof (induction ns)
  case Nil
  then show ?case by simp
next
  case (Cons n ns)
  show ?case
  proof (cases "n = p")
    case True
    with Cons.prems have "\<forall>m \<in> set ns. f m = None" by auto
    then have "List.map_filter f ns = []" by (rule map_filter_empty)
    with True Cons.prems(3) show ?thesis by simp
  next
    case False
    with Cons have "List.map_filter f ns = [t]" by auto
    with False Cons.prems(3) show ?thesis by simp
  qed
qed

lemma map_filter_two:
  assumes "distinct ns" and "p2 \<in> set ns" and "p3 \<in> set ns" and "p2 \<noteq> p3"
    and "\<forall>n \<in> set ns. f n = (if n = p2 then Some t2 else if n = p3 then Some t3 else None)"
  shows "List.map_filter f ns = [t2, t3] \<or> List.map_filter f ns = [t3, t2]"
  using assms
proof (induction ns)
  case Nil
  then show ?case by simp
next
  case (Cons n ns)
  consider "n = p2" | "n = p3" | "n \<noteq> p2" "n \<noteq> p3" by blast
  then show ?case
  proof cases
    case 1
    with Cons.prems have "List.map_filter f ns = [t3]"
      by (intro map_filter_one [where p = p3]) auto
    with 1 Cons.prems(5) show ?thesis by simp
  next
    case 2
    with Cons.prems have "List.map_filter f ns = [t2]"
      by (intro map_filter_one [where p = p2]) auto
    with 2 Cons.prems(4,5) show ?thesis by simp
  next
    case 3
    with Cons have "List.map_filter f ns = [t2, t3] \<or> List.map_filter f ns = [t3, t2]"
      by auto
    with 3 Cons.prems(5) show ?thesis by simp
  qed
qed

lemma distinct_getNeighbors: "distinct (getNeighbors c)"
  by (cases c) (simp add: getNeighbors_def DIRECTION_VECTORS_def addCoords_def)

text \<open>The tiles found on the neighbours of the first of three mutually adjacent tiles.\<close>

lemma matchingNeighbors_three:
  assumes n2: "position t2 \<in> set (getNeighbors (position t1))"
    and n3: "position t3 \<in> set (getNeighbors (position t1))"
    and ne: "position t2 \<noteq> position t3"
    and v: "tvalue t2 = tvalue t1" "tvalue t3 = tvalue t1"
  shows "matchingNeighbors [t1, t2, t3] (position t1) t1 = [t2, t3]
       \<or> matchingNeighbors [t1, t2, t3] (position t1) t1 = [t3, t2]"
proof -
  let ?f = "\<lambda>pos. getTileAtCoord [t1, t2, t3] pos"
  let ?ns = "getNeighbors (position t1)"
  have "\<forall>n \<in> set ?ns. ?f n =
      (if n = position t2 then Some t2 else if n = position t3 then Some t3 else None)"
    using not_own_neighbor [of "position t1"]
    by (auto simp: getTileAtCoord_def coordsEqual_iff)
  with distinct_getNeighbors n2 n3 ne
  have "List.map_filter ?f ?ns = [t2, t3] \<or> List.map_filter ?f ?ns = [t3, t2]"
    by (rule map_filter_two)
  with v show ?thesis
    by (auto simp: matchingNeighbors_def)
qed

lemma findTripletsAt_three:
  assumes n2: "position t2 \<in> set (getNeighbors (position t1))"
    and n3: "position t3 \<in> set (getNeighbors (position t1))"
    and n23: "position t3 \<in> set (getNeighbors (position t2))"
    and v: "tvalue t2 = tvalue t1" "tvalue t3 = tvalue t1"
  shows "findTripletsAt [t1, t2, t3] (position t1) = [t1, t2, t3]
       \<or> findTripletsAt [t1, t2, t3] (position t1) = [t1, t3, t2]"
proof -
  from n23 not_own_neighbor [of "position t2"] have ne: "position t2 \<noteq> position t3"
    by auto
  have c: "getTileAtCoord [t1, t2, t3] (position t1) = Some t1"
    by (simp add: getTileAtCoord_def coordsEqual_iff)
  have adj: "\<exists>nCoord \<in> set (getNeighbors (position t2)). coordsEqual nCoord (position t3)"
    "\<exists>nCoord \<in> set (getNeighbors (position t3)). coordsEqual nCoord (position t2)"
    using n23 neighbor_sym [OF n23] by (simp_all add: coordsEqual_iff)
  from matchingNeighbors_three [OF n2 n3 ne v] show ?thesis
  proof
    assume "matchingNeighbors [t1, t2, t3] (position t1) t1 = [t2, t3]"
    with c adj(1) show ?thesis by (simp add: findTripletsAt_def)
  next
    assume "matchingNeighbors [t1, t2, t3] (position t1) t1 = [t3, t2]"
    with c adj(2) show ?thesis by (simp add: findTripletsAt_def)
  qed
qed

lemma findAllTriplets_three:
  assumes n2: "position t2 \<in> set (getNeighbors (position t1))"
    and n3: "position t3 \<in> set (getNeighbors (position t1))"
    and n23: "position t3 \<in> set (getNeighbors (position t2))"
    and v: "tvalue t2 = tvalue t1" "tvalue t3 = tvalue t1"
  shows "findAllTriplets [t1, t2, t3] = [[t1, t2, t3]]
       \<or> findAllTriplets [t1, t2, t3] = [[t1, t3, t2]]"
  using findTripletsAt_three [OF assms]
  by (auto simp: findAllTriplets_def Let_def)


lemma resolveLoop_one_merge:
  assumes found: "findAllTriplets g = [T]"
    and step: "mergeStep ids [T] (k, g, 0) = (k', [new], sc)"
  shows "resolveLoop ids k g s = Some ([new], s + sc)"
proof -
  have "resolveLoop ids k g s = resolveLoop ids k' [new] (s + sc)"
    by (subst resolveLoop.simps) (simp add: found step del: mergeStep.simps)
  also have "\<dots> = Some ([new], s + sc)"
    by (subst resolveLoop.simps) (simp add: findAllTriplets_single)
  finally show ?thesis .
qed

text \<open>
  C3. Three mutually adjacent tiles of one value \<open>V\<close> of the progression, \<open>V\<close> not the
  last entry, on a board with unique ids. \<open>mergeTriplet\<close> removes exactly those three
  tiles and appends one tile: its value is the entry after \<open>V\<close>, its position the
  componentwise rounded average of the three positions; the score increase is \<open>3 * V\<close>.
  A pass of \<open>resolveAllMerges\<close> that reaches the triplet adds exactly \<open>3 * V\<close> to the score
  of the pass, and on the board of just these three tiles \<open>resolveAllMerges\<close> returns the
  one new tile and the score \<open>3 * V\<close>.
\<close>

theorem merge_correct:
  assumes idx: "i + 1 < length TILE_VALUES"
    and v: "tvalue t1 = TILE_VALUES ! i" "tvalue t2 = TILE_VALUES ! i"
      "tvalue t3 = TILE_VALUES ! i"
    and nbs: "position t2 \<in> set (getNeighbors (position t1))"
      "position t3 \<in> set (getNeighbors (position t1))"
      "position t3 \<in> set (getNeighbors (position t2))"
    and ids: "distinct (map tid g)"
    and mem: "t1 \<in> set g" "t2 \<in> set g" "t3 \<in> set g"
  shows "mergeTriplet newId g [t1, t2, t3]
        = (filter (\<lambda>t. t \<notin> {t1, t2, t3}) g
             @ [expectedMergedTile newId (TILE_VALUES ! (i + 1)) t1 t2 t3],
           3 * (TILE_VALUES ! i))
    \<and> mergeStep idsrc [[t1, t2, t3]] (k, g, s)
        = (Suc k,
           filter (\<lambda>t. t \<notin> {t1, t2, t3}) g
             @ [expectedMergedTile (idsrc k) (TILE_VALUES ! (i + 1)) t1 t2 t3],
           s + 3 * (TILE_VALUES ! i))
    \<and> resolveAllMerges idsrc [t1, t2, t3]
        = Some ([expectedMergedTile (idsrc 0) (TILE_VALUES ! (i + 1)) t1 t2 t3],
                3 * (TILE_VALUES ! i))"
proof (intro conjI)
  have nv: "getNextValue (TILE_VALUES ! i) = Some (TILE_VALUES ! Suc i)"
    using getNextValue_index [OF idx] by simp
  have fg: "filteredGrid g [t1, t2, t3] = filter (\<lambda>t. t \<notin> {t1, t2, t3}) g"
    using filteredGrid_distinct_ids [OF ids, of "[t1, t2, t3]"] mem by simp
  let ?new = "\<lambda>nid. expectedMergedTile nid (TILE_VALUES ! (i + 1)) t1 t2 t3"
  show a: "mergeTriplet nid g [t1, t2, t3]
      = (filter (\<lambda>t. t \<notin> {t1, t2, t3}) g @ [?new nid], 3 * (TILE_VALUES ! i))" for nid
    by (simp add: nv fg expectedMergedTile_def centerPosition_def v(1))
  have "\<not> (\<exists>t \<in> set [t1, t2, t3]. \<not> (\<exists>nt \<in> set g. tid nt = tid t))"
    using mem by auto
  then show "mergeStep idsrc [[t1, t2, t3]] (k, g, s)
      = (Suc k, filter (\<lambda>t. t \<notin> {t1, t2, t3}) g @ [?new (idsrc k)],
         s + 3 * (TILE_VALUES ! i))"
    by (simp add: a del: mergeTriplet.simps)
  have fg3: "filteredGrid [t1, t2, t3] [t1, t2, t3] = []"
    "filteredGrid [t1, t2, t3] [t1, t3, t2] = []"
    by (simp_all add: filteredGrid_def)
  have m3: "mergeStep idsrc [[t1, t2, t3]] (0, [t1, t2, t3], 0)
        = (1, [?new (idsrc 0)], 3 * (TILE_VALUES ! i))"
      "mergeStep idsrc [[t1, t3, t2]] (0, [t1, t2, t3], 0)
        = (1, [?new (idsrc 0)], 3 * (TILE_VALUES ! i))"
    by (simp_all add: nv expectedMergedTile_def centerPosition_def v(1) fg3
          add.commute add.left_commute)
  from findAllTriplets_three [OF nbs] v
  have "findAllTriplets [t1, t2, t3] = [[t1, t2, t3]]
      \<or> findAllTriplets [t1, t2, t3] = [[t1, t3, t2]]"
    by simp
  then show "resolveAllMerges idsrc [t1, t2, t3] = Some ([?new (idsrc 0)], 3 * (TILE_VALUES ! i))"
    unfolding resolveAllMerges_def
  proof
    assume f: "findAllTriplets [t1, t2, t3] = [[t1, t2, t3]]"
    from resolveLoop_one_merge [OF f m3(1), of 0] show
      "resolveLoop idsrc 0 [t1, t2, t3] 0 = Some ([?new (idsrc 0)], 3 * (TILE_VALUES ! i))"
      by simp
  next
    assume f: "findAllTriplets [t1, t2, t3] = [[t1, t3, t2]]"
    from resolveLoop_one_merge [OF f m3(2), of 0] show
      "resolveLoop idsrc 0 [t1, t2, t3] 0 = Some ([?new (idsrc 0)], 3 * (TILE_VALUES ! i))"
      by simp
  qed
qed


lemma expectedMergedTile_example:
  "expectedMergedTile nid 6 (exTile ''a'' 2 0 0) (exTile ''b'' 2 1 0) (exTile ''c'' 2 0 1)
     = \<lparr>tid = nid, tvalue = 6, position = \<lparr>q = 0, r = 0\<rparr>, isNew = None, isMerged = Some True\<rparr>"
proof -
  have "Math_round (of_int 1 / 3) = 0" "Math_round (of_int 0 / 3) = 0"
    unfolding Math_round_third by simp_all
  then show ?thesis
    by (simp add: expectedMergedTile_def exTile_def)
qed

theorem merge_correct_witness:
  "mergeTriplet ''n'' rhombusBoard [exTile ''a'' 2 0 0, exTile ''b'' 2 1 0, exTile ''c'' 2 0 1]
     = ([exTile ''d'' 2 1 1,
         \<lparr>tid = ''n'', tvalue = 6, position = \<lparr>q = 0, r = 0\<rparr>,
          isNew = None, isMerged = Some True\<rparr>], 6)
   \<and> resolveAllMerges (mergeIds exDraws)
         [exTile ''a'' 2 0 0, exTile ''b'' 2 1 0, exTile ''c'' 2 0 1]
     = Some ([\<lparr>tid = ''m'', tvalue = 6, position = \<lparr>q = 0, r = 0\<rparr>,
               isNew = None, isMerged = Some True\<rparr>], 6)"
proof -
  let ?a = "exTile ''a'' 2 0 0" and ?b = "exTile ''b'' 2 1 0" and ?c = "exTile ''c'' 2 0 1"
  have idx: "0 + 1 < length TILE_VALUES" by (simp add: TILE_VALUES_def)
  have v: "tvalue ?a = TILE_VALUES ! 0" "tvalue ?b = TILE_VALUES ! 0" "tvalue ?c = TILE_VALUES ! 0"
    by (simp_all add: exTile_def TILE_VALUES_def)
  have nbs: "position ?b \<in> set (getNeighbors (position ?a))"
    "position ?c \<in> set (getNeighbors (position ?a))"
    "position ?c \<in> set (getNeighbors (position ?b))"
    by (simp_all add: exTile_def in_getNeighbors)
  have ids: "distinct (map tid rhombusBoard)"
    by (simp add: rhombusBoard_def exTile_def)
  have mem: "?a \<in> set rhombusBoard" "?b \<in> set rhombusBoard" "?c \<in> set rhombusBoard"
    by (simp_all add: rhombusBoard_def)
  have rest: "filter (\<lambda>t. t \<notin> {?a, ?b, ?c}) rhombusBoard = [exTile ''d'' 2 1 1]"
    by (simp add: rhombusBoard_def exTile_def)
  have next6: "TILE_VALUES ! (0 + 1) = 6" "3 * (TILE_VALUES ! 0) = 6"
    by (simp_all add: TILE_VALUES_def)
  from merge_correct [OF idx v nbs ids mem, of "''n''" "mergeIds exDraws" 0 0]
  show ?thesis
    unfolding rest next6 expectedMergedTile_example
    by (simp add: exDraws_def)
qed

section \<open>A slide that moves nothing\<close>

lemma snd_placeTiles:
  "snd (placeTiles zs (g, m)) \<longleftrightarrow> m \<or> (\<exists>z \<in> set zs. position (snd z) \<noteq> fst z)"
proof (induction zs arbitrary: g m)
  case Nil
  show ?case by simp
next
  case (Cons z zs)
  obtain p t where z: "z = (p, t)" by (cases z)
  show ?case
    unfolding z by (auto simp: Cons.IH coordsEqual_iff)
qed

lemma getTileAtCoord_set_cong:
  assumes "distinct (map position g)" "distinct (map position g')" "set g = set g'"
  shows "getTileAtCoord g c = getTileAtCoord g' c"
proof (cases "getTileAtCoord g c")
  case None
  with assms(3) show ?thesis
    by (simp add: getTileAtCoord_None) (metis getTileAtCoord_None)
next
  case (Some t)
  then have "t \<in> set g \<and> position t = c"
    by (simp add: getTileAtCoord_distinct [OF assms(1)])
  then have "getTileAtCoord g' c = Some t"
    by (simp add: getTileAtCoord_distinct [OF assms(2)] assms(3))
  with Some show ?thesis by simp
qed

lemma tilesInLine_set_cong:
  assumes "distinct (map position g)" "distinct (map position g')" "set g = set g'"
  shows "tilesInLine g line = tilesInLine g' line"
  unfolding tilesInLine_def
  using getTileAtCoord_set_cong [OF assms] by (intro arg_cong2 [where f = List.map_filter]) auto

text \<open>
  Pairing a line with tiles that sit on its first coordinates, in order: every tile is
  paired with its own position.
\<close>

lemma zip_packed:
  assumes "map position ts = take (length ts) line" and "(p, t) \<in> set (zip line ts)"
  shows "position t = p"
proof -
  from assms(2) obtain n where n: "n < length line" "n < length ts"
    and pt: "line ! n = p" "ts ! n = t"
    by (auto simp: in_set_zip)
  from assms(1) have "map position ts ! n = take (length ts) line ! n" by simp
  with n pt show ?thesis by simp
qed

text \<open>
  One line of the slide on a board with unique ids whose flags are set: when the tiles
  of the line are packed, nothing moves and the board keeps its tiles.
\<close>

lemma slideLine_packed:
  assumes vb: "validBoard g" and ids: "inj_on tid (set g)"
    and flags: "\<forall>t \<in> set g. isNew t \<noteq> None \<and> isMerged t \<noteq> None"
    and packed: "linePacked g line"
  shows "set (fst (slideLine line (g, m))) = set g \<and> snd (slideLine line (g, m)) = m"
proof (cases "tilesInLine g line = []")
  case True
  then show ?thesis by (simp add: slideLine_def)
next
  case False
  let ?inLine = "tilesInLine g line"
  let ?kept = "filter (\<lambda>tile. \<not> (\<exists>lineTile \<in> set ?inLine. tid lineTile = tid tile)) g"
  let ?mk = "\<lambda>(p, t). \<lparr>tid = tid t, tvalue = tvalue t, position = p,
                        isNew = Some (orFalse (isNew t)),
                        isMerged = Some (orFalse (isMerged t))\<rparr>"
  from vb have dg: "distinct (map position g)" by (simp add: validBoard_def)
  have sub: "set ?inLine \<subseteq> set g"
    by (auto simp: set_tilesInLine [OF dg])
  have own: "position t = p" if "(p, t) \<in> set (zip line ?inLine)" for p t
    using packed that unfolding linePacked_def by (rule zip_packed)
  have same: "?mk (p, t) = t" if "(p, t) \<in> set (zip line ?inLine)" for p t
  proof -
    from that have "t \<in> set g" using sub by (auto dest: set_zip_rightD)
    with flags obtain b c where "isNew t = Some b" "isMerged t = Some c" by auto
    with own [OF that] show ?thesis by (cases t) (simp add: orFalse_def)
  qed
  have "map ?mk (zip line ?inLine) = map snd (zip line ?inLine)"
    by (rule map_cong) (use same in auto)
  also have "\<dots> = ?inLine"
    using length_tilesInLine [of g line] by (simp add: map_snd_zip_take min_def)
  finally have new: "map ?mk (zip line ?inLine) = ?inLine" .
  have res: "slideLine line (g, m) = placeTiles (zip line ?inLine) (?kept, m)"
    using False by (simp add: slideLine_def Let_def)
  have "set ?kept = set g - set ?inLine"
    using sub ids by (auto simp: inj_on_def)
  with sub have "set (?kept @ ?inLine) = set g" by auto
  then have "set (fst (slideLine line (g, m))) = set g"
    by (simp only: res fst_placeTiles new)
  moreover have "snd (slideLine line (g, m)) = m"
    unfolding res snd_placeTiles using own by force
  ultimately show ?thesis ..
qed

lemma fold_slideLine_packed:
  assumes g0: "validBoard g0" "inj_on tid (set g0)"
    "\<forall>t \<in> set g0. isNew t \<noteq> None \<and> isMerged t \<noteq> None"
    and lines: "\<forall>line \<in> set ls. distinct line \<and> (\<forall>c \<in> set line. isValidCoord c)
        \<and> linePacked g0 line"
    and g: "validBoard g" "set g = set g0"
  shows "snd (fold slideLine ls (g, m)) = m"
  using lines g
proof (induction ls arbitrary: g)
  case Nil
  then show ?case by simp
next
  case (Cons line ls)
  from g0(1) Cons.prems(2) have d: "distinct (map position g)" "distinct (map position g0)"
    by (simp_all add: validBoard_def)
  from Cons.prems(1) have "linePacked g0 line" by simp
  then have packed: "linePacked g line"
    unfolding linePacked_def tilesInLine_set_cong [OF d Cons.prems(3)] .
  have "set (fst (slideLine line (g, m))) = set g \<and> snd (slideLine line (g, m)) = m"
    using Cons.prems(2) g0(2,3) packed unfolding Cons.prems(3) [symmetric]
    by (intro slideLine_packed) simp_all
  moreover have "validBoard (fst (slideLine line (g, m)))"
    using Cons.prems(1,2) by (intro validBoard_slideLine) simp_all
  ultimately obtain g' where st: "slideLine line (g, m) = (g', m)"
    and g': "validBoard g'" "set g' = set g0"
    using Cons.prems(3) by (cases "slideLine line (g, m)") auto
  from Cons.IH [OF _ g'] Cons.prems(1) show ?case
    by (simp add: st)
qed


lemma getTileAtCoord_resetGrid:
  "getTileAtCoord (resetGrid g) c
     = map_option (\<lambda>tile. tile\<lparr>isNew := Some False, isMerged := Some False\<rparr>) (getTileAtCoord g c)"
  by (induction g) (simp_all add: getTileAtCoord_def resetGrid_def coordsEqual_def)

lemma position_tilesInLine_resetGrid:
  "map position (tilesInLine (resetGrid g) line) = map position (tilesInLine g line)"
  unfolding tilesInLine_def
  by (induction line) (auto simp: getTileAtCoord_resetGrid split: option.splits)

lemma linePacked_resetGrid: "linePacked (resetGrid g) line \<longleftrightarrow> linePacked g line"
proof -
  have "length (map position (tilesInLine (resetGrid g) line))
      = length (map position (tilesInLine g line))"
    by (simp only: position_tilesInLine_resetGrid)
  then have "length (tilesInLine (resetGrid g) line) = length (tilesInLine g line)"
    by simp
  then show ?thesis
    by (simp add: linePacked_def position_tilesInLine_resetGrid)
qed

lemma lines_distinct_valid:
  assumes "line \<in> set (getAllLines d)"
  shows "distinct line \<and> (\<forall>c \<in> set line. isValidCoord c)"
proof -
  have *: "distinct (concat (getAllLines d))"
    "set (concat (getAllLines d)) = set getAllGridCoords"
    using lines_checked by (cases d; simp)+
  from *(1) assms have "distinct line" by (rule distinct_concat_member)
  moreover from *(2) assms have "\<forall>c \<in> set line. isValidCoord c"
    by (auto simp: isValidCoord_iff)
  ultimately show ?thesis ..
qed

lemma slideAll_packed:
  assumes vb: "validBoard g" and ids: "distinct (map tid g)"
    and packed: "\<forall>line \<in> set (getAllLines d). linePacked g line"
  shows "\<not> snd (slideAll d (resetGrid g))"
proof -
  have "validBoard (resetGrid g)"
    using vb by (simp add: validBoard_resetGrid)
  moreover have "inj_on tid (set (resetGrid g))"
  proof -
    have "map tid (resetGrid g) = map tid g" by (simp add: resetGrid_def)
    with ids have "distinct (map tid (resetGrid g))" by simp
    then show ?thesis by (simp add: distinct_map)
  qed
  moreover have "\<forall>t \<in> set (resetGrid g). isNew t \<noteq> None \<and> isMerged t \<noteq> None"
    by (auto simp: resetGrid_def)
  moreover have "\<forall>line \<in> set (getAllLines d).
      distinct line \<and> (\<forall>c \<in> set line. isValidCoord c) \<and> linePacked (resetGrid g) line"
    using packed lines_distinct_valid by (simp add: linePacked_resetGrid)
  ultimately have "snd (fold slideLine (getAllLines d) (resetGrid g, False)) = False"
    by (intro fold_slideLine_packed [where ?g0.0 = "resetGrid g"]) simp_all
  then show ?thesis by (simp add: slideAll_def)
qed

text \<open>
  C5. When the slide places every tile on the coordinate it already had (the \<open>moved\<close>
  flag of the slide stays false), the move returns the input state itself: no history
  entry, no spawn, the score, the best score, the flags and the undo count as they were.
  That is the case on every board with unique ids and tiles on different valid
  coordinates where the tiles of every line already sit, in order, on the first
  coordinates of the line, also when a merge would have been possible.
\<close>

theorem move_noop:
  "(\<not> snd (slideAll d (resetGrid (grid S))) \<longrightarrow> moveInDirection dr S d = Some S)
   \<and> (validBoard (grid S) \<and> distinct (map tid (grid S))
        \<and> (\<forall>line \<in> set (getAllLines d). linePacked (grid S) line)
      \<longrightarrow> \<not> snd (slideAll d (resetGrid (grid S))) \<and> moveInDirection dr S d = Some S)"
proof -
  have a: "moveInDirection dr S d = Some S" if "\<not> snd (slideAll d (resetGrid (grid S)))"
    using that by (cases "slideAll d (resetGrid (grid S))") (simp add: moveInDirection_def)
  have b: "\<not> snd (slideAll d (resetGrid (grid S)))"
    if "validBoard (grid S)" "distinct (map tid (grid S))"
      "\<forall>line \<in> set (getAllLines d). linePacked (grid S) line"
    using that by (rule slideAll_packed)
  from a b show ?thesis by blast
qed

lemma packed_example:
  "validBoard (grid packedState) \<and> distinct (map tid (grid packedState))
   \<and> list_all (linePacked (grid packedState)) (getAllLines EAST)"
  by code_simp

lemma packed_canMerge: "canMergeAnywhere (grid packedState)"
  by code_simp

theorem move_noop_witness:
  "validBoard (grid packedState) \<and> distinct (map tid (grid packedState))
   \<and> list_all (linePacked (grid packedState)) (getAllLines EAST)
   \<and> canMergeAnywhere (grid packedState)
   \<and> \<not> snd (slideAll EAST (resetGrid (grid packedState)))
   \<and> moveInDirection exDraws packedState EAST = Some packedState"
proof -
  from packed_example have "\<forall>line \<in> set (getAllLines EAST). linePacked (grid packedState) line"
    by (simp add: list_all_iff)
  with packed_example move_noop [of EAST packedState exDraws] packed_canMerge
  show ?thesis by blast
qed

end
